(* ===== verification/Prelude.thy ===== *)
theory Prelude
  imports Main "HOL-Library.Multiset" "HOL-Library.Char_ord" "HOL-Library.List_Lexorder"
    "HOL-Library.Word" "HOL-Library.Signed_Division"
begin

text \<open>
  Shared vocabulary of the development: the two kinds of C string the spider handles
  (\<open>std::string\<close> values, which are character lists, and NUL-terminated buffers), the
  \<open>std::map\<close> that the spider iterates over in key order, C's integer division, and the
  collection \<open>spider_defs\<close> in which every component puts the definitions its proofs unfold.
\<close>

named_theorems spider_defs \<open>definitions that the component proofs unfold\<close>

section \<open>C strings\<close>

abbreviation NUL :: char where "NUL \<equiv> CHR 0x00"
abbreviation LF :: char where "LF \<equiv> CHR 0x0A"
abbreviation CR :: char where "CR \<equiv> CHR 0x0D"
abbreviation TAB :: char where "TAB \<equiv> CHR 0x09"
abbreviation SPACE :: char where "SPACE \<equiv> CHR 0x20"

text \<open>What \<open>%s\<close>, \<open>strlen\<close> and \<open>std::string(const char*)\<close> see of a buffer: the bytes
  in front of the first NUL.\<close>

definition cstr :: "string \<Rightarrow> string" where
  "cstr s = takeWhile (\<lambda>c. c \<noteq> NUL) s"

lemma cstr_Nil [simp]: "cstr [] = []"
  by (simp add: cstr_def)

lemma cstr_Cons [simp]: "cstr (c # s) = (if c = NUL then [] else c # cstr s)"
  by (simp add: cstr_def)

lemma NUL_notin_cstr [simp]: "NUL \<notin> set (cstr s)"
  by (induction s) auto

lemma cstr_id [simp]: "NUL \<notin> set s \<Longrightarrow> cstr s = s"
  by (induction s) auto

lemma cstr_append_NUL [simp]: "NUL \<notin> set s \<Longrightarrow> cstr (s @ NUL # t) = s"
  by (induction s) auto

lemma length_cstr_le: "length (cstr s) \<le> length s"
  by (simp add: cstr_def length_takeWhile_le)

lemma cstr_append: "NUL \<notin> set s \<Longrightarrow> cstr (s @ t) = s @ cstr t"
  by (induction s) auto

lemma cstr_stop: "cstr (s @ NUL # t) = cstr s"
  by (induction s) auto

lemma length_takeWhile_less: "\<exists>x \<in> set xs. \<not> P x \<Longrightarrow> length (takeWhile P xs) < length xs"
  by (induction xs) auto

lemma takeWhile_notin: "c \<notin> set l \<Longrightarrow> takeWhile (\<lambda>x. x \<noteq> c) l = l"
  by (induction l) auto

lemma dropWhile_notin: "c \<notin> set l \<Longrightarrow> dropWhile (\<lambda>x. x \<noteq> c) l = []"
  by (induction l) auto

lemma takeWhile_upto: "c \<notin> set l \<Longrightarrow> takeWhile (\<lambda>x. x \<noteq> c) (l @ c # s) = l"
  by (induction l) auto

lemma dropWhile_upto: "c \<notin> set l \<Longrightarrow> dropWhile (\<lambda>x. x \<noteq> c) (l @ c # s) = c # s"
  by (induction l) auto

lemma dropWhile_Cons_length: "dropWhile P xs = y # ys \<Longrightarrow> length ys < length xs"
  by (metis Suc_le_lessD length_Cons length_dropWhile_le)

section \<open>Decimal output\<close>

text \<open>The digits \<open>%d\<close>, \<open>%u\<close> and \<open>%lu\<close> print for a non-negative value, and the sign
  that \<open>%d\<close> adds for a negative one.\<close>

definition digit_char :: "nat \<Rightarrow> char" where
  "digit_char d = char_of (48 + d)"

fun dec_digits :: "nat \<Rightarrow> string" where
  "dec_digits n = (if n < 10 then [digit_char n] else dec_digits (n div 10) @ [digit_char (n mod 10)])"

declare dec_digits.simps [simp del]

definition dec_int :: "int \<Rightarrow> string" where
  "dec_int n = (if n < 0 then CHR ''-'' # dec_digits (nat (- n)) else dec_digits (nat n))"

lemma dec_digits_ne [simp]: "dec_digits n \<noteq> []"
  by (subst dec_digits.simps) simp

lemma digit_char_ne:
  assumes "d < 10"
  shows "digit_char d \<noteq> NUL" "digit_char d \<noteq> TAB" "digit_char d \<noteq> LF" "digit_char d \<noteq> CHR ''.''"
proof -
  have "d \<in> {0,1,2,3,4,5,6,7,8,9}" using assms by auto
  then show "digit_char d \<noteq> NUL" "digit_char d \<noteq> TAB" "digit_char d \<noteq> LF" "digit_char d \<noteq> CHR ''.''"
    by (auto simp: digit_char_def char_of_def)
qed

lemma dec_digits_chars:
  "c \<in> set (dec_digits n) \<Longrightarrow> c \<noteq> NUL \<and> c \<noteq> TAB \<and> c \<noteq> LF \<and> c \<noteq> CHR ''.''"
proof (induction n rule: dec_digits.induct)
  case (1 n)
  show ?case
  proof (cases "n < 10")
    case True
    with "1.prems" show ?thesis
      by (subst (asm) dec_digits.simps) (auto simp: digit_char_ne)
  next
    case False
    have m: "n mod 10 < 10" by simp
    from False "1.prems" have "c \<in> set (dec_digits (n div 10)) \<or> c = digit_char (n mod 10)"
      by (subst (asm) dec_digits.simps) auto
    with False "1.IH" show ?thesis by (elim disjE) (simp_all add: digit_char_ne [OF m])
  qed
qed

lemma NUL_notin_dec_digits [simp]: "NUL \<notin> set (dec_digits n)"
  using dec_digits_chars by blast

lemma NUL_notin_dec_int [simp]: "NUL \<notin> set (dec_int n)"
  by (simp add: dec_int_def)

lemma length_dec_digits_le: "n < 10 ^ Suc k \<Longrightarrow> length (dec_digits n) \<le> Suc k"
proof (induction k arbitrary: n)
  case 0
  then show ?case by (subst dec_digits.simps) simp
next
  case (Suc k)
  show ?case
  proof (cases "n < 10")
    case True
    then show ?thesis by (subst dec_digits.simps) simp
  next
    case False
    from Suc.prems have "n div 10 < 10 ^ Suc k" by (simp add: div_less_iff_less_mult)
    then have "length (dec_digits (n div 10)) \<le> Suc k" by (rule Suc.IH)
    with False show ?thesis by (subst dec_digits.simps) simp
  qed
qed

section \<open>std::map\<close>

text \<open>
  A \<open>std::map\<close> is the list of its pairs in key order, as iteration visits them.
  \<open>sm_insert\<close> is \<open>insert\<close> (an existing key keeps its value), \<open>sm_put\<close> is assignment
  through \<open>operator[]\<close> or an iterator; \<open>find\<close> is \<open>map_of\<close>.
\<close>

fun sm_put :: "'k::linorder \<Rightarrow> 'v \<Rightarrow> ('k \<times> 'v) list \<Rightarrow> ('k \<times> 'v) list" where
  "sm_put k v [] = [(k, v)]"
| "sm_put k v ((k', v') # m) =
     (if k < k' then (k, v) # (k', v') # m
      else if k = k' then (k, v) # m
      else (k', v') # sm_put k v m)"

definition sm_insert :: "'k::linorder \<Rightarrow> 'v \<Rightarrow> ('k \<times> 'v) list \<Rightarrow> ('k \<times> 'v) list" where
  "sm_insert k v m = (case map_of m k of None \<Rightarrow> sm_put k v m | Some _ \<Rightarrow> m)"

definition sm_inv :: "('k::linorder \<times> 'v) list \<Rightarrow> bool" where
  "sm_inv m \<longleftrightarrow> sorted_wrt (<) (map fst m)"

lemma map_of_sm_put [simp]: "map_of (sm_put k v m) = (map_of m)(k \<mapsto> v)"
  by (induction k v m rule: sm_put.induct) (auto simp: fun_eq_iff)

lemma map_of_sm_insert [simp]:
  "map_of (sm_insert k v m) = (case map_of m k of None \<Rightarrow> (map_of m)(k \<mapsto> v) | Some _ \<Rightarrow> map_of m)"
  by (simp add: sm_insert_def split: option.split)

lemma fst_set_sm_put [simp]: "fst ` set (sm_put k v m) = insert k (fst ` set m)"
  by (induction k v m rule: sm_put.induct) auto

lemma sm_inv_Nil [simp, intro]: "sm_inv []"
  by (simp add: sm_inv_def)

lemma sm_inv_put [simp, intro]: "sm_inv m \<Longrightarrow> sm_inv (sm_put k v m)"
  by (induction k v m rule: sm_put.induct) (auto simp: sm_inv_def)

lemma sm_inv_insert [simp, intro]: "sm_inv m \<Longrightarrow> sm_inv (sm_insert k v m)"
  by (simp add: sm_insert_def split: option.split)

lemma sm_inv_distinct: "sm_inv m \<Longrightarrow> distinct (map fst m)"
  by (simp add: sm_inv_def strict_sorted_iff)

section \<open>Multisets of lists\<close>

lemma mset_filter_split: "mset (filter P xs) + mset (filter (\<lambda>x. \<not> P x) xs) = mset xs"
  by (induction xs) auto

lemma mset_butlast_last: "xs \<noteq> [] \<Longrightarrow> add_mset (last xs) (mset (butlast xs)) = mset xs"
  by (metis append_butlast_last_id mset.simps(1,2) mset_append union_mset_add_mset_right add.right_neutral)

lemma mset_concat_filter:
  "distinct ks \<Longrightarrow> mset (concat (map (\<lambda>k. filter (\<lambda>x. f x = k) xs) ks)) = mset (filter (\<lambda>x. f x \<in> set ks) xs)"
proof (induction ks)
  case (Cons k ks)
  have "mset (filter (\<lambda>x. f x \<in> set (k # ks)) xs) =
        mset (filter (\<lambda>x. f x = k) xs) + mset (filter (\<lambda>x. f x \<in> set ks) xs)"
    using Cons.prems by (induction xs) auto
  with Cons show ?case by simp
qed simp

lemma distinct_map_fst_filter: "distinct (map fst m) \<Longrightarrow> distinct (map fst (filter P m))"
  by (induction m) (auto simp: image_iff)

section \<open>Machine integers\<close>

text \<open>Values of \<open>size_t\<close> (64 bits) and \<open>int\<close> (32 bits) that are in range, and the truncating store.\<close>

lemma ucast_of_int_32: "ucast (of_int k :: 64 word) = (of_int k :: 32 word)"
  by transfer (simp add: take_bit_take_bit)

lemma uint_of_int_64: "0 \<le> k \<Longrightarrow> k < 2 ^ 63 \<Longrightarrow> uint (of_int k :: 64 word) = k"
  by transfer (simp add: take_bit_int_eq_self_iff)

lemma sint_of_int_32: "- (2 ^ 31) \<le> k \<Longrightarrow> k < 2 ^ 31 \<Longrightarrow> sint (of_int k :: 32 word) = k"
  by (simp add: sint_sbintrunc' signed_take_bit_int_eq_self_iff del: of_int_add of_int_diff)

end
