(* ===== verification/Spider_Conf.thy ===== *)
theory Spider_Conf
  imports Prelude
begin

text \<open>
  \<open>CSpiderConf\<close> (spider_common.h) and \<open>CSpider::load_conf\<close> (spider.cpp). The configuration
  reader \<open>sdConf\<close> is not in the repository: \<open>gs\<close> and \<open>gi\<close> stand for \<open>get_string_item\<close> and
  \<open>get_int_item\<close> of the loaded file, \<open>readable\<close> for \<open>sdConf::load_conf\<close> returning \<open>FR_OK\<close>.
\<close>

record CSpiderConf =
  spider_name :: string
  user_agent :: string
  log_conf_path :: string
  spider_paused :: int
  next_round_continue :: int
  extract_cate_url :: int
  extract_item_url :: int
  write_page :: int
  normalize_url :: int
  page_dir :: string
  page_name_change_interval :: int
  cate_input_path :: string
  seed_path :: string
  seed_bak_path :: string
  url_output_dir :: string
  url_input_dir :: string
  item_output_path :: string
  cate_output_path :: string
  fail_output_path :: string
  stop_domain_conf_path :: string
  default_max_concurrent_thread_count :: int
  urlpool_empty_sleep_time :: int
  max_url_len :: int
  max_page_len :: int
  min_page_len :: int
  default_site_crawl_interval :: int
  max_url_fail_count :: int
  max_url_redirect_count :: int
  max_dns_query_count :: int
  selected_queue_empty_sleep_time :: int
  dns_host :: string
  dns_port :: int
  dns_sleep_interval :: int
  extractor_conf_path :: string
  recognizer_conf_path :: string
  min_select_interval :: int
  select_nums_per_time :: int
  min_select_threshold :: int
  priority_quota :: int
  cate_percent :: int
  item_percent :: int
  selected_queue_size :: int
  work_thread_num :: int
  statis_file_path :: string
  converter_code_path :: string
  strong_rule_conf_path :: string

text \<open>A configuration in zeroed memory, before anything is loaded.\<close>

definition conf_zeroed :: CSpiderConf where
  "conf_zeroed =
     \<lparr>spider_name = [], user_agent = [], log_conf_path = [], spider_paused = 0,
      next_round_continue = 0, extract_cate_url = 0, extract_item_url = 0, write_page = 0,
      normalize_url = 0, page_dir = [], page_name_change_interval = 0, cate_input_path = [], seed_path = [],
      seed_bak_path = [], url_output_dir = [], url_input_dir = [], item_output_path = [],
      cate_output_path = [], fail_output_path = [], stop_domain_conf_path = [],
      default_max_concurrent_thread_count = 0, urlpool_empty_sleep_time = 0, max_url_len = 0,
      max_page_len = 0, min_page_len = 0, default_site_crawl_interval = 0, max_url_fail_count = 0,
      max_url_redirect_count = 0, max_dns_query_count = 0, selected_queue_empty_sleep_time = 0,
      dns_host = [], dns_port = 0, dns_sleep_interval = 0, extractor_conf_path = [],
      recognizer_conf_path = [], min_select_interval = 0, select_nums_per_time = 0,
      min_select_threshold = 0, priority_quota = 0, cate_percent = 0, item_percent = 0,
      selected_queue_size = 0, work_thread_num = 0, statis_file_path = [], converter_code_path = [],
      strong_rule_conf_path = []\<rparr>"

section \<open>Reading the configuration\<close>

text \<open>
  Each \<open>if\<close> of \<open>load_conf\<close> reads one key, refuses it (an empty string; an integer below
  \<open>least\<close>: \<open>< 0\<close> in the code is 0 here, \<open><= 0\<close> is 1) or stores it. The table keeps the order
  of the code.
\<close>

datatype conf_item =
    Str_item string "string \<Rightarrow> CSpiderConf \<Rightarrow> CSpiderConf"
  | Int_item string int "int \<Rightarrow> CSpiderConf \<Rightarrow> CSpiderConf"

definition conf_items_service :: "conf_item list" where
  "conf_items_service =
    [Str_item ''SPIDER_NAME'' (\<lambda>v c. c\<lparr>spider_name := v\<rparr>),
     Str_item ''USER_AGENT'' (\<lambda>v c. c\<lparr>user_agent := v\<rparr>),
     Str_item ''LOG_CONF_PATH'' (\<lambda>v c. c\<lparr>log_conf_path := v\<rparr>),
     Int_item ''SPIDER_PAUSED'' 0 (\<lambda>v c. c\<lparr>spider_paused := v\<rparr>),
     Int_item ''NEXT_ROUND_CONTINUE'' 0 (\<lambda>v c. c\<lparr>next_round_continue := v\<rparr>),
     Int_item ''EXTRACT_CATE_URL'' 0 (\<lambda>v c. c\<lparr>extract_cate_url := v\<rparr>),
     Int_item ''EXTRACT_ITEM_URL'' 0 (\<lambda>v c. c\<lparr>extract_item_url := v\<rparr>),
     Int_item ''WRITE_PAGE'' 0 (\<lambda>v c. c\<lparr>write_page := v\<rparr>),
     Int_item ''NORMALIZE_URL'' 0 (\<lambda>v c. c\<lparr>normalize_url := v\<rparr>),
     Str_item ''PAGE_DIR'' (\<lambda>v c. c\<lparr>page_dir := v\<rparr>),
     Int_item ''PAGE_NAME_CHANGE_INTERVAL'' 0 (\<lambda>v c. c\<lparr>page_name_change_interval := v\<rparr>),
     Str_item ''CATE_INPUT_PATH'' (\<lambda>v c. c\<lparr>cate_input_path := v\<rparr>),
     Str_item ''SEED_PATH'' (\<lambda>v c. c\<lparr>seed_path := v\<rparr>),
     Str_item ''SEED_BAK_PATH'' (\<lambda>v c. c\<lparr>seed_bak_path := v\<rparr>),
     Str_item ''URL_OUTPUT_DIR'' (\<lambda>v c. c\<lparr>url_output_dir := v\<rparr>),
     Str_item ''URL_INPUT_DIR'' (\<lambda>v c. c\<lparr>url_input_dir := v\<rparr>),
     Str_item ''ITEM_OUTPUT_PATH'' (\<lambda>v c. c\<lparr>item_output_path := v\<rparr>),
     Str_item ''CATE_OUTPUT_PATH'' (\<lambda>v c. c\<lparr>cate_output_path := v\<rparr>),
     Str_item ''FAIL_OUTPUT_PATH'' (\<lambda>v c. c\<lparr>fail_output_path := v\<rparr>),
     Str_item ''STOP_DOMAIN_CONF_PATH'' (\<lambda>v c. c\<lparr>stop_domain_conf_path := v\<rparr>)]"

definition conf_items_limits :: "conf_item list" where
  "conf_items_limits =
    [Int_item ''DEFAULT_MAX_CONCURRENT_THREAD_COUNT'' 1
       (\<lambda>v c. c\<lparr>default_max_concurrent_thread_count := v\<rparr>),
     Int_item ''URLPOOL_EMPTY_SLEEP_TIME'' 1 (\<lambda>v c. c\<lparr>urlpool_empty_sleep_time := v\<rparr>),
     Int_item ''MAX_URL_LEN'' 1 (\<lambda>v c. c\<lparr>max_url_len := v\<rparr>),
     Int_item ''MAX_PAGE_LEN'' 1 (\<lambda>v c. c\<lparr>max_page_len := v\<rparr>),
     Int_item ''MIN_PAGE_LEN'' 1 (\<lambda>v c. c\<lparr>min_page_len := v\<rparr>),
     Int_item ''DEFAULT_SITE_CRAWL_INTERVAL'' 1 (\<lambda>v c. c\<lparr>default_site_crawl_interval := v\<rparr>),
     Int_item ''MAX_URL_FAIL_COUNT'' 1 (\<lambda>v c. c\<lparr>max_url_fail_count := v\<rparr>),
     Int_item ''MAX_URL_REDIRECT_COUNT'' 1 (\<lambda>v c. c\<lparr>max_url_redirect_count := v\<rparr>),
     Int_item ''MAX_DNS_QUERY_COUNT'' 1 (\<lambda>v c. c\<lparr>max_dns_query_count := v\<rparr>),
     Int_item ''SELECTED_QUEUE_EMPTY_SLEEP_TIME'' 1
       (\<lambda>v c. c\<lparr>selected_queue_empty_sleep_time := v\<rparr>),
     Str_item ''DNS_HOST'' (\<lambda>v c. c\<lparr>dns_host := v\<rparr>),
     Int_item ''DNS_PORT'' 1 (\<lambda>v c. c\<lparr>dns_port := v\<rparr>),
     Int_item ''DNS_SLEEP_INTERVAL'' 1 (\<lambda>v c. c\<lparr>dns_sleep_interval := v\<rparr>)]"

definition conf_items_select :: "conf_item list" where
  "conf_items_select =
    [Str_item ''EXTRACTOR_CONF_PATH'' (\<lambda>v c. c\<lparr>extractor_conf_path := v\<rparr>),
     Str_item ''RECOGNIZER_CONF_PATH'' (\<lambda>v c. c\<lparr>recognizer_conf_path := v\<rparr>),
     Int_item ''MIN_SELECT_INTERVAL'' 1 (\<lambda>v c. c\<lparr>min_select_interval := v\<rparr>),
     Int_item ''SELECT_NUMS_PER_TIME'' 1 (\<lambda>v c. c\<lparr>select_nums_per_time := v\<rparr>),
     Int_item ''MIN_SELECT_THRESHOLD'' 0 (\<lambda>v c. c\<lparr>min_select_threshold := v\<rparr>),
     Int_item ''PRIORITY_QUOTA'' 1 (\<lambda>v c. c\<lparr>priority_quota := v\<rparr>),
     Int_item ''CATE_PERCENT'' 1 (\<lambda>v c. c\<lparr>cate_percent := v\<rparr>),
     Int_item ''ITEM_PERCENT'' 1 (\<lambda>v c. c\<lparr>item_percent := v\<rparr>),
     Int_item ''SELECTED_QUEUE_SIZE'' 1 (\<lambda>v c. c\<lparr>selected_queue_size := v\<rparr>),
     Int_item ''WORK_THREAD_NUM'' 1 (\<lambda>v c. c\<lparr>work_thread_num := v\<rparr>),
     Str_item ''STATIS_FILE_PATH'' (\<lambda>v c. c\<lparr>statis_file_path := v\<rparr>),
     Str_item ''CONVERTER_CODE_PATH'' (\<lambda>v c. c\<lparr>converter_code_path := v\<rparr>),
     Str_item ''STRONG_RULE_CONF_PATH'' (\<lambda>v c. c\<lparr>strong_rule_conf_path := v\<rparr>)]"

definition conf_items :: "conf_item list" where
  "conf_items = conf_items_service @ conf_items_limits @ conf_items_select"

fun item_ok :: "(string \<Rightarrow> string) \<Rightarrow> (string \<Rightarrow> int) \<Rightarrow> conf_item \<Rightarrow> bool" where
  "item_ok gs gi (Str_item k upd) \<longleftrightarrow> gs k \<noteq> []"
| "item_ok gs gi (Int_item k least upd) \<longleftrightarrow> least \<le> gi k"

fun store_item :: "(string \<Rightarrow> string) \<Rightarrow> (string \<Rightarrow> int) \<Rightarrow> conf_item \<Rightarrow> CSpiderConf \<Rightarrow> CSpiderConf" where
  "store_item gs gi (Str_item k upd) c = upd (gs k) c"
| "store_item gs gi (Int_item k least upd) c = upd (gi k) c"

text \<open>The first refused key ends the function with -1; what was stored before it stays.\<close>

fun load_items :: "(string \<Rightarrow> string) \<Rightarrow> (string \<Rightarrow> int) \<Rightarrow> conf_item list \<Rightarrow> CSpiderConf \<Rightarrow> int \<times> CSpiderConf" where
  "load_items gs gi [] c = (0, c)"
| "load_items gs gi (it # its) c =
     (if item_ok gs gi it then load_items gs gi its (store_item gs gi it c) else (- 1, c))"

definition load_conf :: "bool \<Rightarrow> (string \<Rightarrow> string) \<Rightarrow> (string \<Rightarrow> int) \<Rightarrow> CSpiderConf \<Rightarrow> int \<times> CSpiderConf" where
  "load_conf readable gs gi c = (if \<not> readable then (- 1, c) else load_items gs gi conf_items c)"

section \<open>What a loaded configuration guarantees\<close>

lemma load_items_result: "fst (load_items gs gi its c) = (if list_all (item_ok gs gi) its then 0 else - 1)"
  by (induction its arbitrary: c) auto

lemma load_items_stored:
  "list_all (item_ok gs gi) its \<Longrightarrow> snd (load_items gs gi its c) = fold (store_item gs gi) its c"
  by (induction its arbitrary: c) auto

lemma load_items_prefix:
  "list_all (item_ok gs gi) its \<Longrightarrow> \<not> item_ok gs gi it \<Longrightarrow>
   load_items gs gi (its @ it # rest) c = (- 1, fold (store_item gs gi) its c)"
  by (induction its arbitrary: c) auto

text \<open>The guards that the other components need: what divides, what bounds a buffer, what bounds
  a loop. \<open>page_name_change_interval\<close>, the divisor of the page file's name, is only known not to
  be negative.\<close>

definition conf_ok :: "CSpiderConf \<Rightarrow> bool" where
  "conf_ok c \<longleftrightarrow>
     0 \<le> page_name_change_interval c \<and> 0 < default_max_concurrent_thread_count c \<and>
     0 < max_url_len c \<and> 0 < max_page_len c \<and> 0 < min_page_len c \<and>
     0 < default_site_crawl_interval c \<and> 0 < max_url_fail_count c \<and>
     0 < max_url_redirect_count c \<and> 0 < max_dns_query_count c \<and> 0 < select_nums_per_time c \<and>
     0 \<le> min_select_threshold c \<and> 0 < priority_quota c \<and> 0 < cate_percent c \<and>
     0 < item_percent c \<and> 0 < selected_queue_size c \<and> 0 < work_thread_num c"

lemmas conf_tables = conf_items_def conf_items_service_def conf_items_limits_def conf_items_select_def

lemma load_conf_result:
  "fst (load_conf readable gs gi c) = (if readable \<and> list_all (item_ok gs gi) conf_items then 0 else - 1)"
  by (simp add: load_conf_def load_items_result)

lemma stored_conf_ok:
  "list_all (item_ok gs gi) conf_items \<Longrightarrow> conf_ok (fold (store_item gs gi) conf_items c)"
  by (simp add: conf_tables conf_ok_def)

section \<open>What the file must hold\<close>

text \<open>The contract of \<open>load_conf\<close>, independent of the order in which it reads: the keys that need a text, those
  that need a positive number and those for which zero will do, and the configuration made of the values
  of a file, field by field.\<close>

definition text_keys :: "string list" where
  "text_keys =
    [''SPIDER_NAME'', ''USER_AGENT'', ''LOG_CONF_PATH'', ''PAGE_DIR'', ''CATE_INPUT_PATH'',
     ''SEED_PATH'', ''SEED_BAK_PATH'', ''URL_OUTPUT_DIR'', ''URL_INPUT_DIR'', ''ITEM_OUTPUT_PATH'',
     ''CATE_OUTPUT_PATH'', ''FAIL_OUTPUT_PATH'', ''STOP_DOMAIN_CONF_PATH'', ''DNS_HOST'',
     ''EXTRACTOR_CONF_PATH'', ''RECOGNIZER_CONF_PATH'', ''STATIS_FILE_PATH'', ''CONVERTER_CODE_PATH'',
     ''STRONG_RULE_CONF_PATH'']"

definition positive_keys :: "string list" where
  "positive_keys =
    [''DEFAULT_MAX_CONCURRENT_THREAD_COUNT'', ''URLPOOL_EMPTY_SLEEP_TIME'', ''MAX_URL_LEN'',
     ''MAX_PAGE_LEN'', ''MIN_PAGE_LEN'', ''DEFAULT_SITE_CRAWL_INTERVAL'', ''MAX_URL_FAIL_COUNT'',
     ''MAX_URL_REDIRECT_COUNT'', ''MAX_DNS_QUERY_COUNT'', ''SELECTED_QUEUE_EMPTY_SLEEP_TIME'',
     ''DNS_PORT'', ''DNS_SLEEP_INTERVAL'', ''MIN_SELECT_INTERVAL'', ''SELECT_NUMS_PER_TIME'',
     ''PRIORITY_QUOTA'', ''CATE_PERCENT'', ''ITEM_PERCENT'', ''SELECTED_QUEUE_SIZE'', ''WORK_THREAD_NUM'']"

definition natural_keys :: "string list" where
  "natural_keys =
    [''SPIDER_PAUSED'', ''NEXT_ROUND_CONTINUE'', ''EXTRACT_CATE_URL'', ''EXTRACT_ITEM_URL'',
     ''WRITE_PAGE'', ''NORMALIZE_URL'', ''PAGE_NAME_CHANGE_INTERVAL'', ''MIN_SELECT_THRESHOLD'']"

definition conf_in_range :: "(string \<Rightarrow> string) \<Rightarrow> (string \<Rightarrow> int) \<Rightarrow> bool" where
  "conf_in_range gs gi \<longleftrightarrow> list_all (\<lambda>k. gs k \<noteq> []) text_keys \<and> list_all (\<lambda>k. 0 < gi k) positive_keys \<and>
     list_all (\<lambda>k. 0 \<le> gi k) natural_keys"

definition conf_values :: "(string \<Rightarrow> string) \<Rightarrow> (string \<Rightarrow> int) \<Rightarrow> CSpiderConf" where
  "conf_values gs gi =
    \<lparr>spider_name = gs ''SPIDER_NAME'', user_agent = gs ''USER_AGENT'',
     log_conf_path = gs ''LOG_CONF_PATH'', spider_paused = gi ''SPIDER_PAUSED'',
     next_round_continue = gi ''NEXT_ROUND_CONTINUE'', extract_cate_url = gi ''EXTRACT_CATE_URL'',
     extract_item_url = gi ''EXTRACT_ITEM_URL'', write_page = gi ''WRITE_PAGE'',
     normalize_url = gi ''NORMALIZE_URL'', page_dir = gs ''PAGE_DIR'',
     page_name_change_interval = gi ''PAGE_NAME_CHANGE_INTERVAL'',
     cate_input_path = gs ''CATE_INPUT_PATH'', seed_path = gs ''SEED_PATH'',
     seed_bak_path = gs ''SEED_BAK_PATH'', url_output_dir = gs ''URL_OUTPUT_DIR'',
     url_input_dir = gs ''URL_INPUT_DIR'', item_output_path = gs ''ITEM_OUTPUT_PATH'',
     cate_output_path = gs ''CATE_OUTPUT_PATH'', fail_output_path = gs ''FAIL_OUTPUT_PATH'',
     stop_domain_conf_path = gs ''STOP_DOMAIN_CONF_PATH'',
     default_max_concurrent_thread_count = gi ''DEFAULT_MAX_CONCURRENT_THREAD_COUNT'',
     urlpool_empty_sleep_time = gi ''URLPOOL_EMPTY_SLEEP_TIME'', max_url_len = gi ''MAX_URL_LEN'',
     max_page_len = gi ''MAX_PAGE_LEN'', min_page_len = gi ''MIN_PAGE_LEN'',
     default_site_crawl_interval = gi ''DEFAULT_SITE_CRAWL_INTERVAL'',
     max_url_fail_count = gi ''MAX_URL_FAIL_COUNT'',
     max_url_redirect_count = gi ''MAX_URL_REDIRECT_COUNT'',
     max_dns_query_count = gi ''MAX_DNS_QUERY_COUNT'',
     selected_queue_empty_sleep_time = gi ''SELECTED_QUEUE_EMPTY_SLEEP_TIME'',
     dns_host = gs ''DNS_HOST'', dns_port = gi ''DNS_PORT'',
     dns_sleep_interval = gi ''DNS_SLEEP_INTERVAL'', extractor_conf_path = gs ''EXTRACTOR_CONF_PATH'',
     recognizer_conf_path = gs ''RECOGNIZER_CONF_PATH'',
     min_select_interval = gi ''MIN_SELECT_INTERVAL'',
     select_nums_per_time = gi ''SELECT_NUMS_PER_TIME'',
     min_select_threshold = gi ''MIN_SELECT_THRESHOLD'', priority_quota = gi ''PRIORITY_QUOTA'',
     cate_percent = gi ''CATE_PERCENT'', item_percent = gi ''ITEM_PERCENT'',
     selected_queue_size = gi ''SELECTED_QUEUE_SIZE'', work_thread_num = gi ''WORK_THREAD_NUM'',
     statis_file_path = gs ''STATIS_FILE_PATH'', converter_code_path = gs ''CONVERTER_CODE_PATH'',
     strong_rule_conf_path = gs ''STRONG_RULE_CONF_PATH''\<rparr>"

lemma item_ok_range: "list_all (item_ok gs gi) conf_items \<longleftrightarrow> conf_in_range gs gi"
  unfolding conf_in_range_def text_keys_def positive_keys_def natural_keys_def conf_tables
  by (simp add: int_one_le_iff_zero_less) blast

lemma stored_conf_values: "fold (store_item gs gi) conf_items c = conf_values gs gi"
  unfolding conf_values_def conf_tables by simp

section \<open>Properties\<close>

text \<open>C31: Loading either succeeds or returns -1. It succeeds exactly when the file is readable, every text key
  has a text, every count, limit and interval a positive number, and every switch, the page interval and
  the selection threshold at least zero; then every field of the configuration is the value of its own
  key, whatever was in it before, and the configuration satisfies what the other components rely on (no
  zero where the code divides, counts or waits, but for the page interval). A file that cannot be read
  changes nothing.\<close>

theorem load_conf_guarantees:
  "(if readable \<and> conf_in_range gs gi
    then load_conf readable gs gi c = (0, conf_values gs gi) \<and> conf_ok (conf_values gs gi)
    else fst (load_conf readable gs gi c) = - 1 \<and> (\<not> readable \<longrightarrow> snd (load_conf readable gs gi c) = c))"
proof (cases "readable \<and> conf_in_range gs gi")
  case True
  then have all: "list_all (item_ok gs gi) conf_items" by (simp add: item_ok_range)
  then have "load_conf readable gs gi c = (0, conf_values gs gi)"
    using True by (intro prod_eqI) (simp_all add: load_conf_def load_items_result load_items_stored stored_conf_values)
  with True stored_conf_ok [OF all, of c] show ?thesis by (simp add: stored_conf_values)
next
  case False
  then show ?thesis using load_conf_result [of readable gs gi c] by (auto simp: item_ok_range load_conf_def)
qed

lemma load_conf_guarantees_witness:
  "load_conf True (\<lambda>k. if k = ''SEED_PATH'' then ''seed'' else ''x'') (\<lambda>k. if k = ''DNS_PORT'' then 53 else 7) conf_zeroed =
     (0, conf_values (\<lambda>k. if k = ''SEED_PATH'' then ''seed'' else ''x'') (\<lambda>k. if k = ''DNS_PORT'' then 53 else 7))"
proof -
  have "conf_in_range (\<lambda>k. if k = ''SEED_PATH'' then ''seed'' else ''x'') (\<lambda>k. if k = ''DNS_PORT'' then 53 else 7)"
    by (simp add: conf_in_range_def text_keys_def positive_keys_def natural_keys_def)
  then show ?thesis
    using load_conf_guarantees [of True "\<lambda>k. if k = ''SEED_PATH'' then ''seed'' else ''x''"
        "\<lambda>k. if k = ''DNS_PORT'' then 53 else 7" conf_zeroed] by simp
qed

end
