(* ===== verification/Spider_Statis.thy ===== *)
theory Spider_Statis
  imports Prelude
begin

text \<open>
  \<open>CSpiderStatis\<close> (spider_statis.h, spider_statis.cpp): the known domains with their attributes, four
  counters per domain, five queue sizes, and the statistics file. The file is the text written
  to it so far (\<open>None\<close> is a NULL \<open>FILE*\<close>); the local time is a parameter.
\<close>

section \<open>State\<close>

record DomainAttr =
  isShield :: int
  isSeed :: int

record CSpiderStatis =
  m_domain :: "(string \<times> DomainAttr) list"
  m_domain_cate_done :: "string \<rightharpoonup> int"
  m_domain_item_done :: "string \<rightharpoonup> int"
  m_domain_cate_select :: "string \<rightharpoonup> int"
  m_domain_item_select :: "string \<rightharpoonup> int"
  m_CPQ_url_num :: int
  m_IPQ_url_num :: int
  m_COQ_url_num :: int
  m_IOQ_url_num :: int
  m_SQ_url_num :: int
  m_fp :: "string option"

definition statis_new :: CSpiderStatis where
  "statis_new = \<lparr>m_domain = [], m_domain_cate_done = Map.empty, m_domain_item_done = Map.empty,
     m_domain_cate_select = Map.empty, m_domain_item_select = Map.empty, m_CPQ_url_num = 0,
     m_IPQ_url_num = 0, m_COQ_url_num = 0, m_IOQ_url_num = 0, m_SQ_url_num = 0, m_fp = None\<rparr>"

text \<open>\<open>path\<close> is \<open>None\<close> for a NULL path, and otherwise says whether \<open>fopen\<close> succeeds.\<close>

definition statis_init :: "bool option \<Rightarrow> CSpiderStatis \<Rightarrow> int \<times> CSpiderStatis" where
  "statis_init path s =
     (let s1 = s\<lparr>m_CPQ_url_num := 0, m_IPQ_url_num := 0, m_COQ_url_num := 0, m_IOQ_url_num := 0,
                 m_SQ_url_num := 0\<rparr>
      in case path of None \<Rightarrow> (- 1, s1)
         | Some False \<Rightarrow> (- 1, s1\<lparr>m_fp := None\<rparr>)
         | Some True \<Rightarrow> (0, s1\<lparr>m_fp := Some []\<rparr>))"

section \<open>Counters\<close>

definition num_of :: "(string \<rightharpoonup> int) \<Rightarrow> string \<Rightarrow> int" where
  "num_of m d = (case m d of None \<Rightarrow> 0 | Some n \<Rightarrow> n)"

definition get_domain_cate_done_num :: "CSpiderStatis \<Rightarrow> string \<Rightarrow> int" where
  "get_domain_cate_done_num s d = num_of (m_domain_cate_done s) d"

definition get_domain_item_done_num :: "CSpiderStatis \<Rightarrow> string \<Rightarrow> int" where
  "get_domain_item_done_num s d = num_of (m_domain_item_done s) d"

definition get_domain_cate_select_num :: "CSpiderStatis \<Rightarrow> string \<Rightarrow> int" where
  "get_domain_cate_select_num s d = num_of (m_domain_cate_select s) d"

definition get_domain_item_select_num :: "CSpiderStatis \<Rightarrow> string \<Rightarrow> int" where
  "get_domain_item_select_num s d = num_of (m_domain_item_select s) d"

definition set_domain_cate_done_num :: "string \<Rightarrow> int \<Rightarrow> CSpiderStatis \<Rightarrow> CSpiderStatis" where
  "set_domain_cate_done_num d n s = s\<lparr>m_domain_cate_done := (m_domain_cate_done s)(d \<mapsto> n)\<rparr>"

definition set_domain_item_done_num :: "string \<Rightarrow> int \<Rightarrow> CSpiderStatis \<Rightarrow> CSpiderStatis" where
  "set_domain_item_done_num d n s = s\<lparr>m_domain_item_done := (m_domain_item_done s)(d \<mapsto> n)\<rparr>"

definition set_domain_cate_select_num :: "string \<Rightarrow> int \<Rightarrow> CSpiderStatis \<Rightarrow> CSpiderStatis" where
  "set_domain_cate_select_num d n s = s\<lparr>m_domain_cate_select := (m_domain_cate_select s)(d \<mapsto> n)\<rparr>"

definition set_domain_item_select_num :: "string \<Rightarrow> int \<Rightarrow> CSpiderStatis \<Rightarrow> CSpiderStatis" where
  "set_domain_item_select_num d n s = s\<lparr>m_domain_item_select := (m_domain_item_select s)(d \<mapsto> n)\<rparr>"

text \<open>\<open>rc\<close> is what \<open>pthread_mutex_lock\<close> returns.\<close>

definition bump :: "string \<Rightarrow> (string \<rightharpoonup> int) \<Rightarrow> (string \<rightharpoonup> int)" where
  "bump d m = (case m d of Some n \<Rightarrow> m(d \<mapsto> n + 1) | None \<Rightarrow> m(d \<mapsto> 1))"

definition update_domain_cate_done :: "int \<Rightarrow> string \<Rightarrow> CSpiderStatis \<Rightarrow> int \<times> CSpiderStatis" where
  "update_domain_cate_done rc d s =
     (if rc \<noteq> 0 then (- 1, s) else (0, s\<lparr>m_domain_cate_done := bump d (m_domain_cate_done s)\<rparr>))"

definition update_domain_item_done :: "int \<Rightarrow> string \<Rightarrow> CSpiderStatis \<Rightarrow> int \<times> CSpiderStatis" where
  "update_domain_item_done rc d s =
     (if rc \<noteq> 0 then (- 1, s) else (0, s\<lparr>m_domain_item_done := bump d (m_domain_item_done s)\<rparr>))"

lemmas statis_ops [spider_defs] =
  get_domain_cate_done_num_def get_domain_item_done_num_def get_domain_cate_select_num_def
  get_domain_item_select_num_def set_domain_cate_done_num_def set_domain_item_done_num_def
  set_domain_cate_select_num_def set_domain_item_select_num_def num_of_def bump_def
  update_domain_cate_done_def update_domain_item_done_def

text \<open>The contract the four counters share: reading a cell gives the last value stored there.\<close>

locale counter_table =
  fixes get :: "'s \<Rightarrow> 'k \<Rightarrow> int"
    and put :: "'k \<Rightarrow> int \<Rightarrow> 's \<Rightarrow> 's"
  assumes get_put: "get (put k n s) k' = (if k' = k then n else get s k')"
begin

definition add :: "'k \<Rightarrow> 's \<Rightarrow> 's" where
  "add k s = put k (get s k + 1) s"

lemma get_fold_reset: "get (fold (\<lambda>k. put k 0) ks s) k = (if k \<in> set ks then 0 else get s k)"
  by (induction ks arbitrary: s) (auto simp: get_put)

lemma get_fold_add: "get (fold add ks s) k = get s k + int (count_list ks k)"
  by (induction ks arbitrary: s) (auto simp: add_def get_put)

end

interpretation cd: counter_table get_domain_cate_done_num set_domain_cate_done_num
  by unfold_locales (simp add: spider_defs)

interpretation idn: counter_table get_domain_item_done_num set_domain_item_done_num
  by unfold_locales (simp add: spider_defs)

interpretation cs: counter_table get_domain_cate_select_num set_domain_cate_select_num
  by unfold_locales (simp add: spider_defs)

interpretation isn: counter_table get_domain_item_select_num set_domain_item_select_num
  by unfold_locales (simp add: spider_defs)

lemma update_cate_done_add: "update_domain_cate_done 0 d s = (0, cd.add d s)"
  by (auto simp: cd.add_def spider_defs split: option.split)

lemma update_item_done_add: "update_domain_item_done 0 d s = (0, idn.add d s)"
  by (auto simp: idn.add_def spider_defs split: option.split)

section \<open>The statistics file\<close>

definition queue_line :: "CSpiderStatis \<Rightarrow> string" where
  "queue_line s =
     ''CPQ='' @ dec_int (m_CPQ_url_num s) @ [TAB] @ ''COQ='' @ dec_int (m_COQ_url_num s) @ [TAB] @
     ''IPQ='' @ dec_int (m_IPQ_url_num s) @ [TAB] @ ''IOQ='' @ dec_int (m_IOQ_url_num s) @ [TAB] @
     ''SQ='' @ dec_int (m_SQ_url_num s) @ [LF]"

definition domain_line :: "CSpiderStatis \<Rightarrow> string \<Rightarrow> string" where
  "domain_line s d =
     ''domain='' @ cstr d @ [TAB] @ ''cate_done='' @ dec_int (get_domain_cate_done_num s d) @ [TAB] @
     ''cate_sel='' @ dec_int (get_domain_cate_select_num s d) @ [TAB] @
     ''item_done='' @ dec_int (get_domain_item_done_num s d) @ [TAB] @
     ''item_sel='' @ dec_int (get_domain_item_select_num s d) @ [LF]"

definition statis_print :: "string \<Rightarrow> CSpiderStatis \<Rightarrow> CSpiderStatis" where
  "statis_print text s = s\<lparr>m_fp := map_option (\<lambda>t. t @ text) (m_fp s)\<rparr>"

text \<open>One turn of the loop: print the domain's counters, then clear the two of this round.\<close>

definition report_domain :: "string \<Rightarrow> CSpiderStatis \<Rightarrow> CSpiderStatis" where
  "report_domain d s =
     set_domain_item_select_num d 0 (set_domain_cate_select_num d 0 (statis_print (domain_line s d) s))"

text \<open>\<open>None\<close> is \<open>fprintf\<close> on a NULL stream.\<close>

definition set_statis_to_file :: "string \<Rightarrow> CSpiderStatis \<Rightarrow> CSpiderStatis option" where
  "set_statis_to_file now s =
     (case m_fp s of None \<Rightarrow> None
      | Some _ \<Rightarrow>
          Some (statis_print [LF]
            (fold report_domain (map fst (m_domain s)) (statis_print (now @ [TAB] @ queue_line s) s))))"

text \<open>The variant that appends to a file of its own; it clears nothing. The result is the text.\<close>

definition set_statis_to_path :: "bool option \<Rightarrow> string \<Rightarrow> CSpiderStatis \<Rightarrow> int \<times> string" where
  "set_statis_to_path path now s =
     (case path of None \<Rightarrow> (- 1, []) | Some False \<Rightarrow> (- 1, [])
      | Some True \<Rightarrow> (0, now @ [TAB] @ queue_line s @ concat (map (\<lambda>(d, _). domain_line s d) (m_domain s))))"

definition write_message_to_file :: "string \<Rightarrow> string \<Rightarrow> CSpiderStatis \<Rightarrow> (int \<times> CSpiderStatis) option" where
  "write_message_to_file now message s =
     (case m_fp s of None \<Rightarrow> None
      | Some _ \<Rightarrow> Some (0, statis_print (now @ [TAB] @ cstr message @ [LF]) s))"

section \<open>What a report does\<close>

lemma statis_print_fields [simp]:
  "m_domain (statis_print t s) = m_domain s"
  "get_domain_cate_done_num (statis_print t s) d = get_domain_cate_done_num s d"
  "get_domain_item_done_num (statis_print t s) d = get_domain_item_done_num s d"
  "get_domain_cate_select_num (statis_print t s) d = get_domain_cate_select_num s d"
  "get_domain_item_select_num (statis_print t s) d = get_domain_item_select_num s d"
  by (simp_all add: statis_print_def spider_defs)

lemma report_domain_fields [simp]:
  "m_domain (report_domain d s) = m_domain s"
  "get_domain_cate_done_num (report_domain d s) d' = get_domain_cate_done_num s d'"
  "get_domain_item_done_num (report_domain d s) d' = get_domain_item_done_num s d'"
  "get_domain_cate_select_num (report_domain d s) d' =
     (if d' = d then 0 else get_domain_cate_select_num s d')"
  "get_domain_item_select_num (report_domain d s) d' =
     (if d' = d then 0 else get_domain_item_select_num s d')"
  "m_fp (report_domain d s) = map_option (\<lambda>t. t @ domain_line s d) (m_fp s)"
  by (simp_all add: report_domain_def statis_print_def spider_defs)

lemma domain_line_cong:
  "get_domain_cate_done_num s d = get_domain_cate_done_num t d \<Longrightarrow>
   get_domain_item_done_num s d = get_domain_item_done_num t d \<Longrightarrow>
   get_domain_cate_select_num s d = get_domain_cate_select_num t d \<Longrightarrow>
   get_domain_item_select_num s d = get_domain_item_select_num t d \<Longrightarrow>
   domain_line s d = domain_line t d"
  by (simp add: domain_line_def)

lemma report_all_counts:
  "get_domain_cate_done_num (fold report_domain ds s) d = get_domain_cate_done_num s d"
  "get_domain_item_done_num (fold report_domain ds s) d = get_domain_item_done_num s d"
  "get_domain_cate_select_num (fold report_domain ds s) d =
     (if d \<in> set ds then 0 else get_domain_cate_select_num s d)"
  "get_domain_item_select_num (fold report_domain ds s) d =
     (if d \<in> set ds then 0 else get_domain_item_select_num s d)"
  "m_domain (fold report_domain ds s) = m_domain s"
  by (induction ds arbitrary: s) auto

lemma report_all_text:
  "distinct ds \<Longrightarrow> m_fp (fold report_domain ds s) =
     map_option (\<lambda>t. t @ concat (map (domain_line s) ds)) (m_fp s)"
proof (induction ds arbitrary: s)
  case Nil
  then show ?case by (simp add: option.map_ident)
next
  case (Cons d ds)
  have e: "map (domain_line (report_domain d s)) ds = map (domain_line s) ds"
    using Cons.prems by (auto intro!: domain_line_cong)
  show ?case using Cons by (simp add: e option.map_comp o_def)
qed

text \<open>Everything a report changes in the counters.\<close>

lemma report_all_frame:
  "(fold report_domain ds s)\<lparr>m_fp := f\<rparr> = s\<lparr>m_fp := f,
     m_domain_cate_select := (\<lambda>d. if d \<in> set ds then Some 0 else m_domain_cate_select s d),
     m_domain_item_select := (\<lambda>d. if d \<in> set ds then Some 0 else m_domain_item_select s d)\<rparr>"
proof (induction ds arbitrary: s)
  case (Cons d ds)
  show ?case by (simp add: Cons) (auto simp: report_domain_def statis_print_def spider_defs fun_eq_iff)
qed simp

section \<open>Properties\<close>

text \<open>C33: A report writes behind the file's text the time, one line with the sizes of the five queues, one line
  per known domain, in key order and with its four counts as they were before the report, and an empty
  line; afterwards the two counts of the round are zero for every known domain, and nothing else has
  changed: no other field, and no count of a domain that is not known.\<close>

theorem report_writes_and_resets:
  assumes "m_fp s = Some text" "sm_inv (m_domain s)"
  shows "set_statis_to_file now s = Some (s\<lparr>
    m_fp := Some (text @ now @ TAB #
      ''CPQ='' @ dec_int (m_CPQ_url_num s) @ TAB # ''COQ='' @ dec_int (m_COQ_url_num s) @ TAB #
      ''IPQ='' @ dec_int (m_IPQ_url_num s) @ TAB # ''IOQ='' @ dec_int (m_IOQ_url_num s) @ TAB #
      ''SQ='' @ dec_int (m_SQ_url_num s) @ LF #
      concat (map (\<lambda>(d, _).
        ''domain='' @ cstr d @ TAB # ''cate_done='' @ dec_int (num_of (m_domain_cate_done s) d) @ TAB #
        ''cate_sel='' @ dec_int (num_of (m_domain_cate_select s) d) @ TAB #
        ''item_done='' @ dec_int (num_of (m_domain_item_done s) d) @ TAB #
        ''item_sel='' @ dec_int (num_of (m_domain_item_select s) d) @ [LF]) (m_domain s)) @ [LF]),
    m_domain_cate_select := (\<lambda>d. if d \<in> fst ` set (m_domain s) then Some 0 else m_domain_cate_select s d),
    m_domain_item_select := (\<lambda>d. if d \<in> fst ` set (m_domain s) then Some 0 else m_domain_item_select s d)\<rparr>)"
proof -
  let ?s1 = "statis_print (now @ [TAB] @ queue_line s) s" and ?ds = "map fst (m_domain s)"
  have lines: "map (domain_line ?s1) ?ds = map (domain_line s) ?ds" by (auto intro!: domain_line_cong)
  have fp: "m_fp ?s1 = Some (text @ now @ TAB # queue_line s)" by (simp add: statis_print_def assms(1))
  have out: "m_fp (statis_print [LF] (fold report_domain ?ds ?s1)) =
      Some (text @ now @ TAB # queue_line s @ concat (map (domain_line s) ?ds) @ [LF])"
    using report_all_text [OF sm_inv_distinct [OF assms(2)], of ?s1] lines
    by (simp only: fp) (simp add: statis_print_def)
  have run: "set_statis_to_file now s = Some (statis_print [LF] (fold report_domain ?ds ?s1))"
    by (simp add: set_statis_to_file_def assms(1))
  have upd: "statis_print [LF] t = t\<lparr>m_fp := m_fp (statis_print [LF] t)\<rparr>" for t by (simp add: statis_print_def)
  have frame: "statis_print [LF] (fold report_domain ?ds ?s1) = s\<lparr>
      m_fp := Some (text @ now @ TAB # queue_line s @ concat (map (domain_line s) ?ds) @ [LF]),
      m_domain_cate_select := (\<lambda>d. if d \<in> set ?ds then Some 0 else m_domain_cate_select s d),
      m_domain_item_select := (\<lambda>d. if d \<in> set ?ds then Some 0 else m_domain_item_select s d)\<rparr>"
    by (subst upd, unfold out report_all_frame) (simp add: statis_print_def cong: if_cong)
  show ?thesis
    unfolding run frame by (simp add: queue_line_def domain_line_def spider_defs case_prod_unfold o_def)
qed

lemma report_writes_and_resets_witness:
  "\<exists>s'. set_statis_to_file ''now'' (statis_new\<lparr>m_fp := Some [], m_domain := [(''a.b'', \<lparr>isShield = 0, isSeed = 1\<rparr>)],
       m_domain_item_select := [''a.b'' \<mapsto> 5, ''c.d'' \<mapsto> 6]\<rparr>) = Some s' \<and> get_domain_item_select_num s' ''a.b'' = 0 \<and>
     get_domain_item_select_num s' ''c.d'' = 6"
proof -
  let ?s = "statis_new\<lparr>m_fp := Some [], m_domain := [(''a.b'', \<lparr>isShield = 0, isSeed = 1\<rparr>)],
       m_domain_item_select := [''a.b'' \<mapsto> 5, ''c.d'' \<mapsto> 6]\<rparr>"
  have "m_fp ?s = Some []" "sm_inv (m_domain ?s)" by (simp_all add: sm_inv_def)
  from report_writes_and_resets [OF this, of "''now''"] show ?thesis by (simp add: spider_defs)
qed

end
