(* ===== verification/Selected_Queue.thy ===== *)
theory Selected_Queue
  imports Prelude
begin

text \<open>
  \<open>CSelectedQueue\<close> (selected_queue.h, selected_queue.cpp): the bounded queue through which the
  selecting thread hands URLs to the crawling threads. Every operation runs under the queue's
  mutex, so an execution of the threads is a sequence of whole operations. The contract the
  other components rely on is the locale \<open>bounded_fifo\<close>.
\<close>

section \<open>State and operations\<close>

datatype queue_type = QUEUE_TYPE_CPQ | QUEUE_TYPE_COQ | QUEUE_TYPE_IPQ | QUEUE_TYPE_IOQ

record SSQItem =
  sq_url :: string
  fail_count :: int
  dns_count :: int
  sq_last_crawl_time :: int
  which_queue :: queue_type

record CSelectedQueue =
  m_queue :: "SSQItem list"
  m_size :: int
  m_count :: int

text \<open>The deque is constructed empty; \<open>init\<close> sets the bound and the count and does not touch
  the deque. \<open>rc\<close> is what \<open>pthread_mutex_init\<close> or \<open>pthread_mutex_destroy\<close> returns.\<close>

definition sq_new :: CSelectedQueue where
  "sq_new = \<lparr>m_queue = [], m_size = 0, m_count = 0\<rparr>"

definition sq_init :: "int \<Rightarrow> int \<Rightarrow> CSelectedQueue \<Rightarrow> int \<times> CSelectedQueue" where
  "sq_init rc n q = (if rc \<noteq> 0 then - 1 else 0, q\<lparr>m_size := n, m_count := 0\<rparr>)"

definition sq_destroy :: "int \<Rightarrow> int" where
  "sq_destroy rc = (if rc \<noteq> 0 then - 1 else 0)"

definition sq_clear :: "CSelectedQueue \<Rightarrow> CSelectedQueue" where
  "sq_clear q = q\<lparr>m_queue := [], m_count := 0\<rparr>"

definition sq_push :: "SSQItem \<Rightarrow> CSelectedQueue \<Rightarrow> bool \<times> CSelectedQueue" where
  "sq_push qi q =
     (if m_count q = m_size q then (False, q)
      else (True, q\<lparr>m_count := m_count q + 1, m_queue := m_queue q @ [qi]\<rparr>))"

text \<open>\<open>pop\<close> assigns its reference argument only when it returns true: the result is the item
  then, and \<open>None\<close> for false.\<close>

definition sq_pop :: "CSelectedQueue \<Rightarrow> SSQItem option \<times> CSelectedQueue" where
  "sq_pop q =
     (case m_queue q of [] \<Rightarrow> (None, q)
      | qi # rest \<Rightarrow> (Some qi, q\<lparr>m_queue := rest, m_count := m_count q - 1\<rparr>))"

definition sq_size :: "CSelectedQueue \<Rightarrow> int" where
  "sq_size q = m_count q"

definition sq_avail_count :: "CSelectedQueue \<Rightarrow> int" where
  "sq_avail_count q = m_size q - m_count q - 20"

lemmas sq_ops [spider_defs] =
  sq_push_def sq_pop_def sq_clear_def sq_size_def sq_avail_count_def sq_init_def

section \<open>The contract\<close>

text \<open>
  What a client may rely on: a list bounded by a capacity, \<open>push\<close> refused exactly when the list
  is full, \<open>pop\<close> returning the oldest element. The client lemmas are proved from these laws.
\<close>

locale bounded_fifo =
  fixes push :: "'a \<Rightarrow> 'q \<Rightarrow> bool \<times> 'q"
    and pop :: "'q \<Rightarrow> 'a option \<times> 'q"
    and clear :: "'q \<Rightarrow> 'q"
    and content :: "'q \<Rightarrow> 'a list"
    and capacity :: "'q \<Rightarrow> nat"
    and ok :: "'q \<Rightarrow> bool"
  assumes push_full: "ok q \<Longrightarrow> length (content q) = capacity q \<Longrightarrow> push x q = (False, q)"
    and push_room: "ok q \<Longrightarrow> length (content q) < capacity q \<Longrightarrow>
      fst (push x q) \<and> ok (snd (push x q)) \<and> content (snd (push x q)) = content q @ [x] \<and>
      capacity (snd (push x q)) = capacity q"
    and pop_nil: "ok q \<Longrightarrow> content q = [] \<Longrightarrow> pop q = (None, q)"
    and pop_cons: "ok q \<Longrightarrow> content q = x # xs \<Longrightarrow>
      fst (pop q) = Some x \<and> ok (snd (pop q)) \<and> content (snd (pop q)) = xs \<and>
      capacity (snd (pop q)) = capacity q"
    and clear_law: "ok q \<Longrightarrow>
      ok (clear q) \<and> content (clear q) = [] \<and> capacity (clear q) = capacity q"
    and bounded: "ok q \<Longrightarrow> length (content q) \<le> capacity q"
begin

lemma push_ok: "ok q \<Longrightarrow> ok (snd (push x q))"
  using push_full push_room bounded by (metis le_neq_implies_less snd_conv)

lemma push_accepts: "ok q \<Longrightarrow> fst (push x q) \<longleftrightarrow> length (content q) < capacity q"
  using push_full push_room bounded by (metis fst_conv le_neq_implies_less less_irrefl)

lemma push_content:
  "ok q \<Longrightarrow> content (snd (push x q)) =
    (if length (content q) < capacity q then content q @ [x] else content q)"
  using push_full push_room bounded by (metis le_neq_implies_less snd_conv)

lemma push_capacity: "ok q \<Longrightarrow> capacity (snd (push x q)) = capacity q"
  using push_full push_room bounded by (metis le_neq_implies_less snd_conv)

lemma pop_content: "ok q \<Longrightarrow> content (snd (pop q)) = tl (content q)"
  by (cases "content q") (auto simp: pop_nil pop_cons)

lemma pop_result: "ok q \<Longrightarrow> fst (pop q) = (case content q of [] \<Rightarrow> None | x # _ \<Rightarrow> Some x)"
  by (cases "content q") (auto simp: pop_nil pop_cons)

lemma pop_ok: "ok q \<Longrightarrow> ok (snd (pop q))"
  by (cases "content q") (auto simp: pop_nil pop_cons)

lemma pop_capacity: "ok q \<Longrightarrow> capacity (snd (pop q)) = capacity q"
  by (cases "content q") (auto simp: pop_nil pop_cons)

lemma push_then_pops_in_order:
  "ok q \<Longrightarrow> content q = [] \<Longrightarrow> 0 < capacity q \<Longrightarrow> fst (pop (snd (push x q))) = Some x"
  by (simp add: pop_result push_content push_ok)

end

text \<open>The abstract queue: a capacity and a list.\<close>

datatype 'a queue_op = Push 'a | Pop | Clear

datatype 'a queue_out = Pushed bool | Popped "'a option" | Cleared

fun spec_step :: "nat \<Rightarrow> 'a queue_op \<Rightarrow> 'a list \<Rightarrow> 'a queue_out \<times> 'a list" where
  "spec_step n (Push x) xs = (if length xs < n then (Pushed True, xs @ [x]) else (Pushed False, xs))"
| "spec_step n Pop [] = (Popped None, [])"
| "spec_step n Pop (x # xs) = (Popped (Some x), xs)"
| "spec_step n Clear xs = (Cleared, [])"

fun spec_run :: "nat \<Rightarrow> 'a queue_op list \<Rightarrow> 'a list \<Rightarrow> 'a queue_out list \<times> 'a list" where
  "spec_run n [] xs = ([], xs)"
| "spec_run n (e # es) xs =
     (let (r, ys) = spec_step n e xs; (rs, zs) = spec_run n es ys in (r # rs, zs))"

fun sq_step :: "SSQItem queue_op \<Rightarrow> CSelectedQueue \<Rightarrow> SSQItem queue_out \<times> CSelectedQueue" where
  "sq_step (Push x) q = (let (b, q') = sq_push x q in (Pushed b, q'))"
| "sq_step Pop q = (let (r, q') = sq_pop q in (Popped r, q'))"
| "sq_step Clear q = (Cleared, sq_clear q)"

fun sq_run :: "SSQItem queue_op list \<Rightarrow> CSelectedQueue \<Rightarrow> SSQItem queue_out list \<times> CSelectedQueue" where
  "sq_run [] q = ([], q)"
| "sq_run (e # es) q = (let (r, q') = sq_step e q; (rs, q'') = sq_run es q' in (r # rs, q''))"

section \<open>The implementation meets the contract\<close>

text \<open>The count agrees with the deque and never passes the bound.\<close>

definition sq_inv :: "CSelectedQueue \<Rightarrow> bool" where
  "sq_inv q \<longleftrightarrow> m_count q = int (length (m_queue q)) \<and> m_count q \<le> m_size q"

lemma sq_inv_bound: "sq_inv q \<Longrightarrow> length (m_queue q) \<le> nat (m_size q)"
  by (auto simp: sq_inv_def)

interpretation sq: bounded_fifo sq_push sq_pop sq_clear m_queue "\<lambda>q. nat (m_size q)" sq_inv
  by unfold_locales (auto simp: spider_defs sq_inv_def split: if_splits)

lemma sq_inv_init: "0 \<le> n \<Longrightarrow> sq_inv (snd (sq_init rc n sq_new))"
  by (simp add: sq_inv_def sq_init_def sq_new_def)

lemma sq_step_refines:
  assumes "sq_inv q"
  shows "spec_step (nat (m_size q)) e (m_queue q) = (fst (sq_step e q), m_queue (snd (sq_step e q)))
    \<and> sq_inv (snd (sq_step e q)) \<and> m_size (snd (sq_step e q)) = m_size q"
  using assms
  by (cases e; cases "m_queue q") (auto simp: spider_defs sq_inv_def Let_def)

lemma sq_run_refines:
  "sq_inv q \<Longrightarrow>
   spec_run (nat (m_size q)) es (m_queue q) = (fst (sq_run es q), m_queue (snd (sq_run es q)))
    \<and> sq_inv (snd (sq_run es q))"
proof (induction es arbitrary: q)
  case Nil
  then show ?case by simp
next
  case (Cons e es)
  from sq_step_refines [OF Cons.prems, of e] Cons.IH [of "snd (sq_step e q)"]
  show ?case by (auto simp: Let_def split: prod.splits)
qed

section \<open>Properties\<close>

text \<open>C14: From its initialisation on the selected queue behaves as a bounded first-in-first-out queue: for
  every sequence of pushes, pops and clears the results and the final content are those of the list
  specification with the configured capacity, and the count always equals the content's length.\<close>

theorem selected_queue_refines:
  assumes "0 \<le> n"
  shows "spec_run (nat n) es [] =
      (fst (sq_run es (snd (sq_init rc n sq_new))), m_queue (snd (sq_run es (snd (sq_init rc n sq_new))))) \<and>
    sq_inv (snd (sq_run es (snd (sq_init rc n sq_new))))"
  using sq_run_refines [OF sq_inv_init [OF assms, of rc], of es] by (simp add: sq_init_def sq_new_def)

lemma selected_queue_refines_witness:
  "fst (sq_run [Pop, Clear] (snd (sq_init 0 1 sq_new))) = [Popped None, Cleared]"
  using selected_queue_refines [of 1 "[Pop, Clear]" 0] by simp

end
