(* ===== verification/Level_Pool.thy ===== *)
theory Level_Pool
  imports Spider_Conf
begin

text \<open>
  \<open>CLevelPool\<close> (level_pool.h, level_pool.cpp): the per-site pressure control. A crawling thread
  asks \<open>is_crawl_enabled\<close> before a fetch and calls \<open>finish_crawl\<close> after it; both run under the
  pool's mutex. The step relation \<open>pool_step\<close> interleaves any number of threads; its invariant
  gives the two promises of the pool: a bound on concurrent fetches of a site and a minimal
  distance between the starts of two of them.
\<close>

section \<open>State and operations\<close>

record SLevelInfo =
  max_crawl_thread_count :: int
  crawl_thread_count :: int
  last_crawl_time :: int
  crawl_interval :: int

type_synonym level_map = "string \<rightharpoonup> SLevelInfo"

text \<open>\<open>gettimeofday\<close> in milliseconds.\<close>

definition get_time_now :: "int \<Rightarrow> int \<Rightarrow> int" where
  "get_time_now tv_sec tv_usec = tv_sec * 1000 + tv_usec sdiv 1000"

definition insert_level_info :: "string \<Rightarrow> SLevelInfo \<Rightarrow> level_map \<Rightarrow> level_map" where
  "insert_level_info site li pool =
     (case pool site of None \<Rightarrow> pool(site \<mapsto> li) | Some _ \<Rightarrow> pool)"

definition is_crawl_enabled :: "CSpiderConf \<Rightarrow> int \<Rightarrow> string \<Rightarrow> level_map \<Rightarrow> bool \<times> level_map" where
  "is_crawl_enabled conf now site pool =
     (case pool site of
        None \<Rightarrow>
          (True, pool(site \<mapsto> \<lparr>max_crawl_thread_count = default_max_concurrent_thread_count conf,
             crawl_thread_count = 1, last_crawl_time = now,
             crawl_interval = default_site_crawl_interval conf\<rparr>))
      | Some li \<Rightarrow>
          if crawl_thread_count li \<ge> default_max_concurrent_thread_count conf then (False, pool)
          else if now - last_crawl_time li < default_site_crawl_interval conf then (False, pool)
          else (True, pool(site \<mapsto> li\<lparr>last_crawl_time := now,
                  crawl_thread_count := crawl_thread_count li + 1\<rparr>)))"

definition finish_crawl :: "string \<Rightarrow> level_map \<Rightarrow> level_map" where
  "finish_crawl site pool =
     (case pool site of None \<Rightarrow> pool
      | Some li \<Rightarrow> pool(site \<mapsto> li\<lparr>crawl_thread_count := crawl_thread_count li - 1\<rparr>))"

definition running :: "level_map \<Rightarrow> string \<Rightarrow> int" where
  "running pool site = (case pool site of None \<Rightarrow> 0 | Some li \<Rightarrow> crawl_thread_count li)"

definition last_start :: "level_map \<Rightarrow> string \<Rightarrow> int option" where
  "last_start pool site = map_option last_crawl_time (pool site)"

lemmas level_ops [spider_defs] =
  is_crawl_enabled_def finish_crawl_def running_def last_start_def

section \<open>The contract of a limiter\<close>

text \<open>
  A limiter counts what is running under a key and remembers when the last one started. A grant
  is given only below the limit and after the interval; a denial changes nothing.
\<close>

locale rate_limiter =
  fixes request :: "int \<Rightarrow> 'k \<Rightarrow> 's \<Rightarrow> bool \<times> 's"
    and release :: "'k \<Rightarrow> 's \<Rightarrow> 's"
    and count :: "'s \<Rightarrow> 'k \<Rightarrow> int"
    and started :: "'s \<Rightarrow> 'k \<Rightarrow> int option"
    and limit :: int
    and interval :: int
  assumes deny: "\<not> fst (request now k s) \<Longrightarrow> snd (request now k s) = s"
    and grant_count: "fst (request now k s) \<Longrightarrow>
      count (snd (request now k s)) k' = count s k' + (if k' = k then 1 else 0)"
    and grant_started: "fst (request now k s) \<Longrightarrow>
      started (snd (request now k s)) k' = (if k' = k then Some now else started s k')"
    and grant_limit: "fst (request now k s) \<Longrightarrow> started s k \<noteq> None \<Longrightarrow> count s k < limit"
    and grant_interval: "fst (request now k s) \<Longrightarrow> started s k = Some t \<Longrightarrow> interval \<le> now - t"
    and fresh_count: "started s k = None \<Longrightarrow> count s k = 0"
    and release_count: "started s k \<noteq> None \<Longrightarrow>
      count (release k s) k' = count s k' - (if k' = k then 1 else 0)"
    and release_started: "started (release k s) k' = started s k'"
begin

lemma grant_below_limit: "0 < limit \<Longrightarrow> fst (request now k s) \<Longrightarrow> count s k < limit"
  using grant_limit fresh_count by (cases "started s k") auto

lemma grant_keeps_limit:
  "0 < limit \<Longrightarrow> \<forall>k. count s k \<le> limit \<Longrightarrow> fst (request now k s) \<Longrightarrow>
   count (snd (request now k s)) k' \<le> limit"
  using grant_below_limit [of now k s] by (auto simp: grant_count)

text \<open>A grant followed by its release leaves every count as it was.\<close>

lemma grant_release_count:
  "fst (request now k s) \<Longrightarrow> count (release k (snd (request now k s))) k' = count s k'"
  by (simp add: release_count grant_count grant_started)

end

section \<open>The implementation meets the contract\<close>

interpretation lp: rate_limiter "is_crawl_enabled conf" finish_crawl running last_start
  "default_max_concurrent_thread_count conf" "default_site_crawl_interval conf"
  for conf
  by unfold_locales (auto simp: spider_defs split: option.splits if_splits)

section \<open>Crawling threads around the pool\<close>

text \<open>
  \<open>fetching\<close> holds the site of every thread between its grant and its \<open>finish_crawl\<close>;
  \<open>starts\<close> is the history of the grants, the latest first. The clock is the environment's: it
  may stand still or go back.
\<close>

record pool_sys =
  pool :: level_map
  fetching :: "string multiset"
  starts :: "(string \<times> int) list"

definition pool_start :: pool_sys where
  "pool_start = \<lparr>pool = Map.empty, fetching = {#}, starts = []\<rparr>"

inductive pool_step :: "CSpiderConf \<Rightarrow> pool_sys \<Rightarrow> pool_sys \<Rightarrow> bool" for conf where
  grant: "is_crawl_enabled conf now site (pool s) = (True, p) \<Longrightarrow>
    pool_step conf s (s\<lparr>pool := p, fetching := add_mset site (fetching s),
      starts := (site, now) # starts s\<rparr>)"
| denied: "is_crawl_enabled conf now site (pool s) = (False, p) \<Longrightarrow>
    pool_step conf s (s\<lparr>pool := p\<rparr>)"
| finish: "site \<in># fetching s \<Longrightarrow>
    pool_step conf s (s\<lparr>pool := finish_crawl site (pool s), fetching := fetching s - {#site#}\<rparr>)"

inductive_cases pool_stepE: "pool_step conf s t"

inductive pool_reach :: "CSpiderConf \<Rightarrow> pool_sys \<Rightarrow> bool" for conf where
  start: "pool_reach conf pool_start"
| step: "pool_reach conf s \<Longrightarrow> pool_step conf s t \<Longrightarrow> pool_reach conf t"

definition start_times :: "pool_sys \<Rightarrow> string \<Rightarrow> int list" where
  "start_times s site = map snd (filter (\<lambda>g. fst g = site) (starts s))"

text \<open>Starts of one site, the latest first, are pairwise at least \<open>d\<close> apart.\<close>

definition spaced :: "int \<Rightarrow> int list \<Rightarrow> bool" where
  "spaced d ts \<longleftrightarrow> sorted_wrt (\<lambda>later earlier. d \<le> later - earlier) ts"

definition site_inv :: "CSpiderConf \<Rightarrow> pool_sys \<Rightarrow> string \<Rightarrow> bool" where
  "site_inv conf s site \<longleftrightarrow>
     running (pool s) site = int (count (fetching s) site) \<and>
     running (pool s) site \<le> default_max_concurrent_thread_count conf \<and>
     last_start (pool s) site = (case start_times s site of [] \<Rightarrow> None | t # _ \<Rightarrow> Some t) \<and>
     spaced (default_site_crawl_interval conf) (start_times s site)"

definition pool_inv :: "CSpiderConf \<Rightarrow> pool_sys \<Rightarrow> bool" where
  "pool_inv conf s \<longleftrightarrow> (\<forall>site. site_inv conf s site)"

lemma start_times_grant: "start_times (s\<lparr>pool := p, fetching := f, starts := (k, now) # starts s\<rparr>) site
    = (if site = k then now # start_times s site else start_times s site)"
  by (auto simp: start_times_def)

lemma spaced_Cons:
  "0 \<le> d \<Longrightarrow> spaced d ts \<Longrightarrow> (case ts of [] \<Rightarrow> True | t # _ \<Rightarrow> d \<le> now - t) \<Longrightarrow> spaced d (now # ts)"
  by (cases ts) (fastforce simp: spaced_def)+

lemma pool_inv_start: "conf_ok conf \<Longrightarrow> pool_inv conf pool_start"
  by (simp add: pool_inv_def site_inv_def pool_start_def running_def last_start_def start_times_def
      spaced_def conf_ok_def)

lemma pool_inv_grant:
  assumes "conf_ok conf" "pool_inv conf s" "is_crawl_enabled conf now k (pool s) = (True, p)"
  shows "pool_inv conf (s\<lparr>pool := p, fetching := add_mset k (fetching s), starts := (k, now) # starts s\<rparr>)"
  unfolding pool_inv_def
proof
  fix site
  let ?req = "is_crawl_enabled conf now k (pool s)"
  have g: "fst ?req" and p: "p = snd ?req" using assms(3) by auto
  have inv: "site_inv conf s site" for site using assms(2) by (simp add: pool_inv_def)
  have pos: "0 < default_max_concurrent_thread_count conf" "0 \<le> default_site_crawl_interval conf"
    using assms(1) by (auto simp: conf_ok_def)
  have below: "running (pool s) k < default_max_concurrent_thread_count conf"
    by (rule lp.grant_below_limit [OF pos(1) g])
  have "case start_times s k of [] \<Rightarrow> True | t # _ \<Rightarrow> default_site_crawl_interval conf \<le> now - t"
    using inv [of k] lp.grant_interval [OF g] by (simp add: site_inv_def split: list.splits)
  with inv [of k] have sp: "spaced (default_site_crawl_interval conf) (now # start_times s k)"
    using spaced_Cons [OF pos(2)] by (simp add: site_inv_def)
  show "site_inv conf (s\<lparr>pool := p, fetching := add_mset k (fetching s), starts := (k, now) # starts s\<rparr>) site"
    using inv [of site] below sp
    by (auto simp: site_inv_def p start_times_grant lp.grant_count [OF g] lp.grant_started [OF g])
qed

lemma pool_inv_finish:
  assumes "pool_inv conf s" "k \<in># fetching s"
  shows "pool_inv conf (s\<lparr>pool := finish_crawl k (pool s), fetching := fetching s - {#k#}\<rparr>)"
  unfolding pool_inv_def
proof
  fix site
  have inv: "site_inv conf s site" for site using assms(1) by (simp add: pool_inv_def)
  have pos: "0 < count (fetching s) k" using assms(2) by simp
  then have "running (pool s) k \<noteq> 0" using inv [of k] by (simp add: site_inv_def)
  then have st: "last_start (pool s) k \<noteq> None" using lp.fresh_count by blast
  have "start_times (s\<lparr>pool := finish_crawl k (pool s), fetching := fetching s - {#k#}\<rparr>) site
      = start_times s site" by (simp add: start_times_def)
  then show "site_inv conf (s\<lparr>pool := finish_crawl k (pool s), fetching := fetching s - {#k#}\<rparr>) site"
    using inv [of site] pos
    by (auto simp: site_inv_def lp.release_count [OF st] lp.release_started of_nat_diff)
qed

lemma pool_inv_step: "conf_ok conf \<Longrightarrow> pool_step conf s t \<Longrightarrow> pool_inv conf s \<Longrightarrow> pool_inv conf t"
proof (erule pool_stepE)
  fix now site p
  assume "pool_inv conf s" "is_crawl_enabled conf now site (pool s) = (False, p)"
    and t: "t = s\<lparr>pool := p\<rparr>"
  then have "p = pool s" using lp.deny [of conf now site "pool s"] by simp
  with t have "t = s" by simp
  then show "pool_inv conf t" using \<open>pool_inv conf s\<close> by simp
qed (auto intro: pool_inv_grant pool_inv_finish)

lemma pool_reach_inv: "conf_ok conf \<Longrightarrow> pool_reach conf s \<Longrightarrow> pool_inv conf s"
  by (rotate_tac, induction rule: pool_reach.induct) (auto intro: pool_inv_start pool_inv_step)

section \<open>Properties\<close>

definition limited_conf :: CSpiderConf where
  "limited_conf = conf_zeroed\<lparr>default_max_concurrent_thread_count := 1, max_url_len := 1, max_page_len := 1,
     min_page_len := 1, default_site_crawl_interval := 5, max_url_fail_count := 1, max_url_redirect_count := 1,
     max_dns_query_count := 1, select_nums_per_time := 1, priority_quota := 1, cate_percent := 1, item_percent := 1,
     selected_queue_size := 1, work_thread_num := 1\<rparr>"

lemma limited_conf_ok: "conf_ok limited_conf"
  by (simp add: conf_ok_def limited_conf_def conf_zeroed_def)

lemma limited_reach: "\<exists>s. pool_reach limited_conf s \<and> fetching s = {#''a.b''#} \<and> start_times s ''a.b'' = [9]"
proof -
  obtain p where "is_crawl_enabled limited_conf 9 ''a.b'' (pool pool_start) = (True, p)"
    by (simp add: is_crawl_enabled_def pool_start_def)
  from pool_reach.step [OF pool_reach.start pool_step.grant [OF this]] show ?thesis
    by (auto simp: pool_start_def start_times_def)
qed

text \<open>C15: In every interleaving of the crawling threads, whatever the clock does, the number of threads that
  fetch from a site is the count the pool keeps and never exceeds the configured maximum.\<close>

theorem site_concurrency_bounded:
  assumes "conf_ok conf" "pool_reach conf s"
  shows "int (count (fetching s) site) = running (pool s) site \<and>
    int (count (fetching s) site) \<le> default_max_concurrent_thread_count conf"
proof -
  have "site_inv conf s site" using pool_reach_inv [OF assms] by (simp add: pool_inv_def)
  then show ?thesis by (simp add: site_inv_def)
qed

lemma site_concurrency_bounded_witness:
  "\<exists>s. pool_reach limited_conf s \<and> fetching s = {#''a.b''#} \<and> running (pool s) ''a.b'' = 1"
proof -
  obtain s where s: "pool_reach limited_conf s" "fetching s = {#''a.b''#}" using limited_reach by blast
  from site_concurrency_bounded [OF limited_conf_ok s(1), of "''a.b''"] s show ?thesis by auto
qed

text \<open>C16: In every interleaving, the times at which fetches from one site are granted are at least the
  configured interval apart, the earlier from the later.\<close>

theorem site_starts_spaced:
  assumes "conf_ok conf" "pool_reach conf s" "i < j" "j < length (start_times s site)"
  shows "default_site_crawl_interval conf \<le> start_times s site ! i - start_times s site ! j"
proof -
  have "spaced (default_site_crawl_interval conf) (start_times s site)"
    using pool_reach_inv [OF assms(1,2)] by (simp add: pool_inv_def site_inv_def)
  with assms(3,4) show ?thesis by (simp add: spaced_def sorted_wrt_iff_nth_less)
qed

lemma limited_reach2: "\<exists>s. pool_reach limited_conf s \<and> start_times s ''a.b'' = [16, 9]"
proof -
  obtain p where "is_crawl_enabled limited_conf 9 ''a.b'' (pool pool_start) = (True, p)" and
    p: "p = [''a.b'' \<mapsto> \<lparr>max_crawl_thread_count = 1, crawl_thread_count = 1, last_crawl_time = 9, crawl_interval = 5\<rparr>]"
    by (simp add: is_crawl_enabled_def pool_start_def limited_conf_def)
  from pool_reach.step [OF pool_reach.start pool_step.grant [OF this(1)]]
  have 1: "pool_reach limited_conf \<lparr>pool = p, fetching = {#''a.b''#}, starts = [(''a.b'', 9)]\<rparr>"
    by (simp add: pool_start_def)
  have 2: "pool_reach limited_conf \<lparr>pool = finish_crawl ''a.b'' p, fetching = {#}, starts = [(''a.b'', 9)]\<rparr>"
    using pool_reach.step [OF 1 pool_step.finish [of "''a.b''"]] by simp
  obtain q where "is_crawl_enabled limited_conf 16 ''a.b'' (finish_crawl ''a.b'' p) = (True, q)"
    by (simp add: is_crawl_enabled_def finish_crawl_def p limited_conf_def)
  with pool_reach.step [OF 2 pool_step.grant [of _ 16 "''a.b''"]]
  show ?thesis by (fastforce simp: start_times_def)
qed

lemma site_starts_spaced_witness:
  "\<exists>s. pool_reach limited_conf s \<and> 5 \<le> start_times s ''a.b'' ! 0 - start_times s ''a.b'' ! 1"
proof -
  obtain s where s: "pool_reach limited_conf s" "start_times s ''a.b'' = [16, 9]" using limited_reach2 by blast
  from site_starts_spaced [OF limited_conf_ok s(1), of 0 1 "''a.b''"] s show ?thesis
    by (auto simp: limited_conf_def)
qed

end
