(* ===== verification/C_File.thy ===== *)
theory C_File
  imports Prelude
begin

text \<open>
  Reading text files line by line, as the loaders of the spider do it: \<open>fgets\<close> into a zeroed
  buffer, the helper \<open>get_one_line\<close> (the same body in \<open>CSpider\<close> and \<open>CUrlRecognizer\<close>), and the
  helper \<open>filter_headtail_blank\<close>, modelled on the memory it walks over: the bytes from the
  buffer's start upward and the bytes below it, nearest first.
\<close>

section \<open>Streams\<close>

text \<open>What is left of the file, and the end-of-file indicator that \<open>feof\<close> reads.\<close>

record fstream =
  f_rest :: string
  f_eof :: bool

definition fopen_text :: "string \<Rightarrow> fstream" where
  "fopen_text content = \<lparr>f_rest = content, f_eof = False\<rparr>"

text \<open>\<open>fgets\<close> with room for \<open>k\<close> characters: it stops after a line feed, after \<open>k\<close> characters, or
  at the end of the file, and only the last sets the indicator.\<close>

fun fgets_chars :: "nat \<Rightarrow> string \<Rightarrow> string \<times> string \<times> bool" where
  "fgets_chars 0 s = ([], s, False)"
| "fgets_chars (Suc k) [] = ([], [], True)"
| "fgets_chars (Suc k) (c # s) =
     (if c = LF then ([c], s, False)
      else (let (l, r, e) = fgets_chars k s in (c # l, r, e)))"

definition fgets :: "nat \<Rightarrow> fstream \<Rightarrow> string \<times> fstream" where
  "fgets len fs = (let (l, r, e) = fgets_chars (len - 1) (f_rest fs)
     in (l, \<lparr>f_rest = r, f_eof = f_eof fs \<or> e\<rparr>))"

lemma fgets_chars_append: "fgets_chars k s = (l, r, e) \<Longrightarrow> s = l @ r"
  by (induction k s arbitrary: l r e rule: fgets_chars.induct) (auto split: if_splits prod.splits)

lemma fgets_chars_length: "fgets_chars k s = (l, r, e) \<Longrightarrow> length l \<le> k"
  by (induction k s arbitrary: l r e rule: fgets_chars.induct) (auto split: if_splits prod.splits)

lemma fgets_chars_eof: "fgets_chars k s = (l, r, True) \<Longrightarrow> r = []"
  by (induction k s arbitrary: l r rule: fgets_chars.induct) (auto split: if_splits prod.splits)

lemma fgets_chars_progress: "fgets_chars (Suc k) s = (l, r, False) \<Longrightarrow> length r < length s"
  by (cases s) (auto split: if_splits prod.splits dest!: fgets_chars_append)

section \<open>get_one_line\<close>

text \<open>\<open>char *pch = strchr(line, c); if (pch != NULL) *pch = 0;\<close>\<close>

definition cut_at :: "char \<Rightarrow> string \<Rightarrow> string" where
  "cut_at c buf =
     (let i = length (takeWhile (\<lambda>x. x \<noteq> c) (cstr buf))
      in if i < length (cstr buf) then buf[i := NUL] else buf)"

text \<open>The buffer of \<open>len\<close> bytes after the call, and the stream.\<close>

definition get_one_line :: "nat \<Rightarrow> fstream \<Rightarrow> string \<times> fstream" where
  "get_one_line len fs =
     (if f_eof fs then (replicate len NUL, fs)
      else (let (l, fs') = fgets len fs;
                buf = l @ replicate (len - length l) NUL
            in (cut_at LF (cut_at CR buf), fs')))"

lemma length_cut_at [simp]: "length (cut_at c buf) = length buf"
  by (simp add: cut_at_def Let_def)

lemma length_get_one_line: "0 < len \<Longrightarrow> length (fst (get_one_line len fs)) = len"
  using fgets_chars_length [of "len - 1" "f_rest fs"]
  by (force simp: get_one_line_def fgets_def Let_def split: prod.split)

text \<open>The buffers that \<open>while (!feof(fp)) { get_one_line(fp, line, len, lineno); ... }\<close> works on, in
  order; \<open>None\<close> when the loop never sees the end of the file.\<close>

partial_function (option) line_bufs :: "nat \<Rightarrow> fstream \<Rightarrow> string list option" where
  "line_bufs len fs =
     (if f_eof fs then Some []
      else Option.bind (line_bufs len (snd (get_one_line len fs)))
             (\<lambda>bufs. Some (fst (get_one_line len fs) # bufs)))"

lemma line_bufs_total:
  assumes "2 \<le> len"
  shows "\<exists>bufs. line_bufs len fs = Some bufs"
proof (induction "length (f_rest fs)" arbitrary: fs rule: less_induct)
  case less
  let ?fs = "snd (get_one_line len fs)"
  obtain k where k: "len = Suc (Suc k)" using assms by (metis add_2_eq_Suc le_Suc_ex)
  show ?case
  proof (cases "f_eof fs \<or> f_eof ?fs")
    case True
    then show ?thesis
      by (cases "f_eof fs") (simp_all add: line_bufs.simps [of len fs] line_bufs.simps [of len ?fs])
  next
    case False
    then have "length (f_rest ?fs) < length (f_rest fs)"
      using fgets_chars_progress [of k "f_rest fs"]
      by (auto simp: get_one_line_def fgets_def k Let_def split: prod.splits)
    then obtain bufs where "line_bufs len ?fs = Some bufs" using less by blast
    then show ?thesis by (simp add: line_bufs.simps [of len fs])
  qed
qed

section \<open>filter_headtail_blank\<close>

definition blank :: "char \<Rightarrow> bool" where
  "blank c \<longleftrightarrow> c = SPACE \<or> c = TAB \<or> c = LF"

definition blank0 :: "char \<Rightarrow> bool" where
  "blank0 c \<longleftrightarrow> blank c \<or> c = NUL"

text \<open>
  The first loop zeroes leading blanks and leaves \<open>p\<close> behind them. The second starts at
  \<open>buf + len - 1\<close> and zeroes downward while it sees blanks and NULs; nothing stops it at the
  buffer's start. The result is the memory below, the memory from \<open>buf\<close> on, and the offset of
  \<open>p\<close>; \<open>None\<close> when a loop leaves the memory that is given.
\<close>

definition filter_headtail_blank :: "nat \<Rightarrow> string \<Rightarrow> string \<Rightarrow> (string \<times> string \<times> nat) option" where
  "filter_headtail_blank len below mem =
     (let k = length (takeWhile blank mem);
          mem1 = replicate k NUL @ drop k mem;
          down = rev (take len mem1);
          z = length (takeWhile blank0 down);
          zb = length (takeWhile blank0 below)
      in if length mem \<le> k \<or> length mem < len then None
         else if z < len
         then Some (below, rev (replicate z NUL @ drop z down) @ drop len mem1, k)
         else if length below \<le> zb then None
         else Some (replicate zb NUL @ drop zb below, replicate len NUL @ drop len mem1, k))"

text \<open>The C string at \<open>p\<close>.\<close>

definition filtered_line :: "nat \<Rightarrow> string \<Rightarrow> string \<Rightarrow> string option" where
  "filtered_line len below mem =
     map_option (\<lambda>(_, mem', k). cstr (drop k mem')) (filter_headtail_blank len below mem)"

definition trim_head :: "string \<Rightarrow> string" where
  "trim_head s = dropWhile blank s"

definition trim_tail :: "string \<Rightarrow> string" where
  "trim_tail s = rev (dropWhile blank (rev s))"

lemma blank0_NUL [simp]: "blank0 NUL"
  by (simp add: blank0_def)

lemma takeWhile_blank_mem: "takeWhile blank (s @ NUL # post) = takeWhile blank s"
  by (induction s) (auto simp: blank_def)

lemma dropWhile_blank_mem: "dropWhile blank (s @ NUL # post) = trim_head s @ NUL # post"
  by (induction s) (auto simp: blank_def trim_head_def)

lemma drop_blank: "drop (length (takeWhile blank s)) s = trim_head s"
  by (metis append_eq_conv_conj takeWhile_dropWhile_id trim_head_def)

lemma length_trim_head: "length (takeWhile blank s) + length (trim_head s) = length s"
  by (metis length_append takeWhile_dropWhile_id trim_head_def)

lemma trim_head_starts: "trim_head s = c # t \<Longrightarrow> \<not> blank c"
  by (metis dropWhile_eq_Cons_conv trim_head_def)

lemma NUL_notin_trim_head: "NUL \<notin> set s \<Longrightarrow> NUL \<notin> set (trim_head s)"
  by (metis set_dropWhileD trim_head_def)

lemma NUL_notin_trim_tail: "NUL \<notin> set s \<Longrightarrow> NUL \<notin> set (trim_tail s)"
  by (metis set_dropWhileD set_rev trim_tail_def)

text \<open>The memory after the first loop, from the top of the region the second loop covers.\<close>

lemma walk_region:
  assumes "Suc (length s) \<le> len"
  shows "rev (take len (replicate (length (takeWhile blank s)) NUL @ trim_head s @ NUL # post))
    = rev (take (len - Suc (length s)) post) @ NUL # rev (trim_head s) @
      replicate (length (takeWhile blank s)) NUL"
proof -
  let ?k = "length (takeWhile blank s)" and ?t = "trim_head s"
  have kt: "?k + length ?t = length s" by (rule length_trim_head)
  have "take len (replicate ?k NUL @ ?t @ NUL # post)
      = replicate ?k NUL @ take (len - ?k) (?t @ NUL # post)"
    using kt assms by (simp del: take_append add: take_append [of _ "replicate _ _"])
  also have "take (len - ?k) (?t @ NUL # post) = ?t @ take (len - length s) (NUL # post)"
    using kt assms by (simp flip: kt)
  also have "take (len - length s) (NUL # post) = NUL # take (len - Suc (length s)) post"
    using assms by (simp add: take_Cons' )
  finally show ?thesis by simp
qed

lemma filter_mem_eq:
  assumes "NUL \<notin> set s" "Suc (length s) \<le> len" "len \<le> length s + Suc (length post)"
  shows "filter_headtail_blank len below (s @ NUL # post) =
    (let down = rev (take (len - Suc (length s)) post) @ NUL # rev (trim_head s) @
           replicate (length (takeWhile blank s)) NUL;
         z = length (takeWhile blank0 down);
         zb = length (takeWhile blank0 below);
         rest = drop (len - Suc (length s)) post
     in if z < len
        then Some (below, rev (replicate z NUL @ drop z down) @ rest, length (takeWhile blank s))
        else if length below \<le> zb then None
        else Some (replicate zb NUL @ drop zb below, replicate len NUL @ rest,
               length (takeWhile blank s)))"
proof -
  let ?k = "length (takeWhile blank s)"
  have k: "length (takeWhile blank (s @ NUL # post)) = ?k" by (simp add: takeWhile_blank_mem)
  have kle: "?k \<le> length s" by (rule length_takeWhile_le)
  have dk: "drop ?k (s @ NUL # post) = trim_head s @ NUL # post"
    using kle by (simp add: drop_blank)
  have rest: "drop len (replicate ?k NUL @ trim_head s @ NUL # post) = drop (len - Suc (length s)) post"
    using assms(2) length_trim_head [of s] by (simp add: drop_Cons' )
  have b: "\<not> (length (s @ NUL # post) \<le> ?k \<or> length (s @ NUL # post) < len)"
    using assms(3) kle by simp
  show ?thesis
    unfolding filter_headtail_blank_def k Let_def dk walk_region [OF assms(2)] rest
    using b by simp
qed

lemma cstr_rev_trim: "NUL \<notin> set t \<Longrightarrow> cstr (trim_tail t @ replicate m NUL @ NUL # w) = trim_tail t"
  by (cases m) (auto simp: NUL_notin_trim_tail)

text \<open>
  A byte that is neither blank nor NUL between the end of the line and \<open>buf + len\<close> stops the
  second loop before it reaches the line: nothing is cut at the tail.
\<close>

lemma filtered_line_stopped:
  assumes "NUL \<notin> set s" "Suc (length s) \<le> len" "len \<le> length s + Suc (length post)"
    and stop: "\<exists>c \<in> set (take (len - Suc (length s)) post). \<not> blank0 c"
  shows "filtered_line len below (s @ NUL # post) = Some (trim_head s)"
proof -
  let ?P = "take (len - Suc (length s)) post" and ?k = "length (takeWhile blank s)"
  let ?tl = "NUL # rev (trim_head s) @ replicate ?k NUL"
  have tw: "takeWhile blank0 (rev ?P @ ?tl) = takeWhile blank0 (rev ?P)"
    using stop by (metis set_rev takeWhile_append1)
  have z: "length (takeWhile blank0 (rev ?P)) < length ?P"
    using stop by (metis length_rev length_takeWhile_less set_rev)
  have "length ?P \<le> len" by simp
  with z have zl: "length (takeWhile blank0 (rev ?P)) < len" by linarith
  have dr: "drop (length (takeWhile blank0 (rev ?P))) (rev ?P @ ?tl) =
      drop (length (takeWhile blank0 (rev ?P))) (rev ?P) @ ?tl"
    using z by simp
  have kk: "drop ?k (replicate ?k NUL @ trim_head s @ NUL # w) = trim_head s @ NUL # w" for w
    by simp
  show ?thesis
    unfolding filtered_line_def filter_mem_eq [OF assms(1-3)] Let_def tw dr
    using zl NUL_notin_trim_head [OF assms(1)] by simp
qed

text \<open>
  When everything above the line is blank or NUL and the loop does stop (in the line, or below the
  buffer when the line is blank), the result is the line with both ends trimmed.
\<close>

lemma filtered_line_trimmed:
  assumes "NUL \<notin> set s" "Suc (length s) \<le> len" "len \<le> length s + Suc (length post)"
    and above: "\<forall>c \<in> set (take (len - Suc (length s)) post). blank0 c"
    and stop: "trim_head s \<noteq> [] \<or> (\<exists>c \<in> set below. \<not> blank0 c)"
  shows "filtered_line len below (s @ NUL # post) = Some (trim_tail (trim_head s))"
proof -
  let ?P = "take (len - Suc (length s)) post" and ?k = "length (takeWhile blank s)"
  let ?t = "trim_head s" and ?rest = "drop (len - Suc (length s)) post"
  let ?n = "Suc (length ?P) + length (takeWhile blank (rev ?t))"
  have lenP: "length ?P = len - Suc (length s)" using assms(3) by simp
  have nt: "NUL \<notin> set ?t" by (rule NUL_notin_trim_head [OF assms(1)])
  have pre: "takeWhile blank0 (rev ?P @ NUL # w) = rev ?P @ NUL # takeWhile blank0 w" for w
    using above takeWhile_append2 [of "rev ?P" blank0 "NUL # w"] by simp
  show ?thesis
  proof (cases "?t = []")
    case True
    obtain k where k: "?k = k" by simp
    have w: "takeWhile blank0 (replicate k NUL) = replicate k NUL"
      by (rule takeWhile_eq_all_conv [THEN iffD2]) simp
    have kt: "?k = length s" using length_trim_head [of s] True by simp
    have "length (takeWhile blank0 (rev ?P @ NUL # rev ?t @ replicate ?k NUL)) = length ?P + Suc k"
      unfolding k True rev.simps append_Nil pre w length_append length_rev list.size(4) length_replicate by simp
    with lenP assms(2) kt k
    have full: "length (takeWhile blank0 (rev ?P @ NUL # rev ?t @ replicate ?k NUL)) = len" by linarith
    have lb: "length (takeWhile blank0 below) < length below"
      using stop True by (simp add: length_takeWhile_less)
    have kl: "?k < len" using assms(2) length_trim_head [of s] True by simp
    then obtain m where m: "len - ?k = Suc m" by (metis Suc_diff_Suc)
    show ?thesis
      unfolding filtered_line_def filter_mem_eq [OF assms(1-3)] Let_def full
      using lb kl by (simp add: True trim_tail_def m)
  next
    case False
    have ex: "\<exists>c \<in> set (rev ?t). \<not> blank0 c"
      using False nt trim_head_starts [of s] by (cases ?t) (auto simp: blank0_def)
    have b: "takeWhile blank0 (rev ?t) = takeWhile blank (rev ?t)"
      using nt by (intro takeWhile_cong) (auto simp: blank0_def)
    have tw: "takeWhile blank0 (rev ?P @ NUL # rev ?t @ replicate ?k NUL)
        = rev ?P @ NUL # takeWhile blank (rev ?t)"
      using ex by (metis b pre takeWhile_append1)
    have z: "length (takeWhile blank0 (rev ?P @ NUL # rev ?t @ replicate ?k NUL)) = ?n"
      by (simp add: tw)
    have lt: "length (takeWhile blank (rev ?t)) < length ?t"
      using ex b by (metis length_rev length_takeWhile_less)
    have nl: "?n < len" using lt lenP assms(2) length_trim_head [of s] by simp
    have dn: "drop ?n (rev ?P @ NUL # rev ?t @ replicate ?k NUL)
        = rev (trim_tail ?t) @ replicate ?k NUL"
      using lt by (simp add: trim_tail_def dropWhile_eq_drop)
    show ?thesis
      unfolding filtered_line_def filter_mem_eq [OF assms(1-3)] Let_def z dn
      using nl by (simp add: cstr_rev_trim [OF nt])
  qed
qed

text \<open>On a blank line with nothing but blanks and NULs below the buffer the loop runs away.\<close>

lemma filtered_line_runs_off:
  assumes "NUL \<notin> set s" "Suc (length s) \<le> len" "len \<le> length s + Suc (length post)"
    and "\<forall>c \<in> set (take (len - Suc (length s)) post). blank0 c"
    and "trim_head s = []" "\<forall>c \<in> set below. blank0 c"
  shows "filtered_line len below (s @ NUL # post) = None"
proof -
  let ?P = "take (len - Suc (length s)) post" and ?k = "length (takeWhile blank s)"
  have lenP: "length ?P = len - Suc (length s)" using assms(3) by simp
  have kt: "?k = length s" using length_trim_head [of s] assms(5) by simp
  have e: "takeWhile blank0 (rev ?P @ NUL # replicate ?k NUL) = rev ?P @ NUL # replicate ?k NUL"
    using assms(4) by (auto simp: takeWhile_eq_all_conv)
  have "length (takeWhile blank0 (rev ?P @ NUL # rev (trim_head s) @ replicate ?k NUL))
      = Suc (length ?P + ?k)"
    by (simp only: assms(5) rev.simps append_Nil e) simp
  with lenP assms(2) kt
  have full: "length (takeWhile blank0 (rev ?P @ NUL # rev (trim_head s) @ replicate ?k NUL)) = len"
    by linarith
  have "length below \<le> length (takeWhile blank0 below)"
    using assms(6) by (metis takeWhile_eq_all_conv le_refl)
  then show ?thesis
    unfolding filtered_line_def filter_mem_eq [OF assms(1-3)] Let_def full by simp
qed

section \<open>Whole lines\<close>

text \<open>A line of a text file that fits the buffer, and what the loaders see of it.\<close>

definition text_line :: "nat \<Rightarrow> string \<Rightarrow> bool" where
  "text_line len s \<longleftrightarrow> LF \<notin> set s \<and> CR \<notin> set s \<and> NUL \<notin> set s \<and> length s + 2 \<le> len"

definition lines_text :: "string list \<Rightarrow> string" where
  "lines_text ls = concat (map (\<lambda>s. s @ [LF]) ls)"

definition tidy :: "string \<Rightarrow> string" where
  "tidy s = trim_tail (trim_head s)"

lemma tidy_Nil [simp]: "tidy [] = []"
  by (simp add: tidy_def trim_head_def trim_tail_def)

lemma tidy_id: "s \<noteq> [] \<Longrightarrow> \<not> blank (hd s) \<Longrightarrow> \<not> blank (last s) \<Longrightarrow> tidy s = s"
proof -
  assume s: "s \<noteq> []" "\<not> blank (hd s)" "\<not> blank (last s)"
  then have "trim_head s = s" by (cases s) (simp_all add: trim_head_def)
  moreover have "trim_tail s = s" using s(1,3) by (cases s rule: rev_cases) (simp_all add: trim_tail_def)
  ultimately show "tidy s = s" by (simp add: tidy_def)
qed

lemma fgets_chars_line:
  "LF \<notin> set s \<Longrightarrow> length s < k \<Longrightarrow> fgets_chars k (s @ LF # r) = (s @ [LF], r, False)"
proof (induction s arbitrary: k)
  case Nil
  then show ?case by (cases k) auto
next
  case (Cons c s)
  then show ?case by (cases k) auto
qed

lemma cstr_text: "NUL \<notin> set s \<Longrightarrow> cstr (s @ replicate (Suc k) NUL) = s"
  by (simp add: cstr_def takeWhile_upto)

lemma list_update_upto: "(s @ x # t)[length s := y] = s @ y # t"
  by (rule list_update_length)

lemma get_one_line_text:
  assumes "text_line len s"
  shows "get_one_line len \<lparr>f_rest = s @ LF # r, f_eof = False\<rparr> =
    (s @ replicate (len - length s) NUL, \<lparr>f_rest = r, f_eof = False\<rparr>)"
proof -
  obtain k where k: "len = length s + 2 + k"
    using assms by (metis le_Suc_ex text_line_def)
  have s: "LF \<notin> set s" "CR \<notin> set s" "NUL \<notin> set s" using assms by (auto simp: text_line_def)
  have f: "fgets len \<lparr>f_rest = s @ LF # r, f_eof = False\<rparr> = (s @ [LF], \<lparr>f_rest = r, f_eof = False\<rparr>)"
    by (simp add: fgets_def fgets_chars_line [OF s(1)] k)
  have b: "s @ LF # replicate (Suc k) NUL = (s @ [LF]) @ replicate (Suc k) NUL" by simp
  have c: "cstr (s @ LF # replicate (Suc k) NUL) = s @ [LF]"
    unfolding b using s by (intro cstr_text) simp
  have cr: "takeWhile (\<lambda>x. x \<noteq> CR) (s @ [LF]) = s @ [LF]"
    using s by (intro takeWhile_notin) simp
  have lf: "takeWhile (\<lambda>x. x \<noteq> LF) (s @ [LF]) = s"
    using takeWhile_upto [OF s(1), of "[]"] by simp
  have "cut_at CR (s @ LF # replicate (Suc k) NUL) = s @ LF # replicate (Suc k) NUL"
    by (simp only: cut_at_def c cr Let_def) simp
  moreover have "cut_at LF (s @ LF # replicate (Suc k) NUL) = s @ NUL # replicate (Suc k) NUL"
    by (simp only: cut_at_def c lf Let_def) (simp add: list_update_upto)
  moreover have "len - length (s @ [LF]) = Suc k" "replicate (len - length s) NUL = NUL # replicate (Suc k) NUL"
    using k by simp_all
  ultimately show ?thesis by (simp add: get_one_line_def f)
qed

lemma get_one_line_end:
  "2 \<le> len \<Longrightarrow> get_one_line len \<lparr>f_rest = [], f_eof = e\<rparr> = (replicate len NUL, \<lparr>f_rest = [], f_eof = True\<rparr>)"
proof (cases len)
  case (Suc k)
  moreover assume "2 \<le> len"
  ultimately show ?thesis
    by (cases k) (simp_all add: get_one_line_def fgets_def cut_at_def cstr_def)
qed simp

text \<open>A buffer in which nothing but NULs follows the line, with memory around it.\<close>

lemma filtered_line_text:
  assumes "NUL \<notin> set s" "length s < len" "trim_head s \<noteq> [] \<or> (\<exists>c \<in> set below. \<not> blank0 c)"
  shows "filtered_line len below ((s @ replicate (len - length s) NUL) @ upper) = Some (tidy s)"
proof -
  obtain k where k: "len - length s = Suc k" using assms(2) by (metis Suc_diff_Suc)
  then have l: "len = Suc (length s + k)" using assms(2) by simp
  have "filtered_line len below (s @ NUL # replicate k NUL @ upper) = Some (trim_tail (trim_head s))"
    by (rule filtered_line_trimmed) (use assms l in \<open>auto simp: l\<close>)
  then show ?thesis by (simp add: k tidy_def)
qed

text \<open>A line without blanks at its ends comes through unchanged, whatever the memory above holds.\<close>

definition clean :: "string \<Rightarrow> bool" where
  "clean s \<longleftrightarrow> s = [] \<or> \<not> blank (hd s) \<and> \<not> blank (last s)"

lemma trim_head_clean: "clean s \<Longrightarrow> trim_head s = s"
  by (cases s) (auto simp: clean_def trim_head_def)

lemma tidy_clean: "clean s \<Longrightarrow> tidy s = s"
  by (cases "s = []") (auto simp: clean_def tidy_id)

lemma filtered_line_clean:
  assumes "text_line len s" "clean s" "length s < n" "n \<le> len + length upper"
    and "\<exists>c \<in> set below. \<not> blank0 c"
  shows "filtered_line n below ((s @ replicate (len - length s) NUL) @ upper) = Some s"
proof -
  have nul: "NUL \<notin> set s" and "length s + 2 \<le> len" using assms(1) by (auto simp: text_line_def)
  then have "length s < len" by simp
  then obtain k where k: "len - length s = Suc k" by (metis Suc_diff_Suc)
  let ?post = "replicate k NUL @ upper"
  have sizes: "Suc (length s) \<le> n" "n \<le> length s + Suc (length ?post)"
    using assms(3,4) k by auto
  have "filtered_line n below (s @ NUL # ?post) = Some s"
  proof (cases "\<exists>c \<in> set (take (n - Suc (length s)) ?post). \<not> blank0 c")
    case True
    from filtered_line_stopped [OF nul sizes this] show ?thesis using assms(2) by (simp add: trim_head_clean)
  next
    case False
    then have "filtered_line n below (s @ NUL # ?post) = Some (trim_tail (trim_head s))"
      by (intro filtered_line_trimmed [OF nul sizes]) (use assms(5) in auto)
    then show ?thesis using tidy_clean [OF assms(2)] by (simp add: tidy_def)
  qed
  then show ?thesis by (simp add: k)
qed

text \<open>The buffers of a file of such lines: one each, and an empty one at the end of the file.\<close>

lemma line_bufs_text:
  assumes "2 \<le> len"
  shows "list_all (text_line len) ls \<Longrightarrow> line_bufs len \<lparr>f_rest = lines_text ls, f_eof = False\<rparr> =
    Some (map (\<lambda>s. s @ replicate (len - length s) NUL) ls @ [replicate len NUL])"
proof (induction ls)
  case Nil
  have "line_bufs len \<lparr>f_rest = [], f_eof = True\<rparr> = Some []" by (simp add: line_bufs.simps)
  then show ?case
    by (subst line_bufs.simps) (simp add: lines_text_def get_one_line_end [OF assms])
next
  case (Cons s ls)
  then have s: "text_line len s" by simp
  have e: "lines_text (s # ls) = s @ LF # lines_text ls" by (simp add: lines_text_def)
  show ?case
    unfolding e by (subst line_bufs.simps) (use Cons in \<open>simp add: get_one_line_text [OF s]\<close>)
qed

section \<open>Every file is read to its end\<close>

lemma NUL_in_cut_at: "NUL \<in> set buf \<Longrightarrow> NUL \<in> set (cut_at c buf)"
  by (auto simp: cut_at_def Let_def cstr_def intro!: set_update_memI elim: less_le_trans [OF _ length_takeWhile_le])

lemma NUL_in_get_one_line:
  assumes "0 < len"
  shows "NUL \<in> set (fst (get_one_line len fs))"
proof -
  obtain l r e where f: "fgets_chars (len - 1) (f_rest fs) = (l, r, e)" by (metis prod_cases3)
  have "NUL \<in> set (l @ replicate (len - length l) NUL)"
    using fgets_chars_length [OF f] assms by simp
  then show ?thesis
    using assms f by (auto simp: get_one_line_def fgets_def Let_def intro!: NUL_in_cut_at)
qed

lemma line_bufs_sound:
  assumes "0 < len"
  shows "line_bufs len fs = Some bufs \<Longrightarrow> list_all (\<lambda>b. length b = len \<and> NUL \<in> set b) bufs"
proof (induction bufs arbitrary: fs)
  case (Cons b bufs)
  from Cons.prems obtain "b = fst (get_one_line len fs)" "line_bufs len (snd (get_one_line len fs)) = Some bufs"
    by (subst (asm) line_bufs.simps) (auto split: if_splits bind_splits)
  with Cons.IH show ?case
    by (simp add: length_get_one_line [OF assms] NUL_in_get_one_line [OF assms])
qed simp

text \<open>The filter returns whenever a NUL stops it upward and some other byte downward.\<close>

lemma filtered_line_returns:
  assumes "NUL \<in> set mem" "len \<le> length mem" "\<exists>c \<in> set below. \<not> blank0 c"
  shows "filtered_line len below mem \<noteq> None"
proof -
  have "\<not> blank NUL" by (simp add: blank_def)
  then have "length (takeWhile blank mem) < length mem" "length (takeWhile blank0 below) < length below"
    using assms by (auto intro!: length_takeWhile_less)
  then show ?thesis using assms(2) by (auto simp: filtered_line_def filter_headtail_blank_def Let_def)
qed

end
