(* ===== verification/Url_Pool.thy ===== *)
theory Url_Pool
  imports C_File Spider_Conf
begin

text \<open>
  \<open>CUrlPool\<close> (urlpool.h, urlpool.cpp): one of the four pools of URLs waiting to be selected. The
  deque and the set of known URLs have a mutex each, so \<open>push_url\<close> is two critical sections,
  \<open>reserve_url\<close> and \<open>enqueue_url\<close>, and other threads can run between them. The step relation
  \<open>upool_step\<close> has them apart, and likewise the two sections of \<open>clear_urls\<close> and the loop and the
  \<open>clear\<close> with which \<open>select_url\<close> empties a pool.
\<close>

section \<open>State and operations\<close>

record UrlInfo =
  ui_url :: string
  ui_last_crawl_time :: int
  ui_domain :: string
  ui_site :: string
  ui_type :: int

record CUrlPool =
  m_url_queue :: "UrlInfo list"
  m_url_set :: "string set"

definition pool_new :: CUrlPool where
  "pool_new = \<lparr>m_url_queue = [], m_url_set = {}\<rparr>"

definition url_empty :: "CUrlPool \<Rightarrow> bool" where
  "url_empty p = (m_url_queue p = [])"

definition clear_urls :: "CUrlPool \<Rightarrow> CUrlPool" where
  "clear_urls p = p\<lparr>m_url_queue := [], m_url_set := {}\<rparr>"

text \<open>The first critical section of \<open>push_url\<close>: true when the URL was not known.\<close>

definition reserve_url :: "UrlInfo \<Rightarrow> CUrlPool \<Rightarrow> bool \<times> CUrlPool" where
  "reserve_url ui p =
     (if ui_url ui \<notin> m_url_set p then (True, p\<lparr>m_url_set := insert (ui_url ui) (m_url_set p)\<rparr>)
      else (False, p))"

definition enqueue_url :: "UrlInfo \<Rightarrow> CUrlPool \<Rightarrow> CUrlPool" where
  "enqueue_url ui p = p\<lparr>m_url_queue := m_url_queue p @ [ui]\<rparr>"

definition push_url :: "UrlInfo \<Rightarrow> CUrlPool \<Rightarrow> CUrlPool" where
  "push_url ui p =
     (if length (ui_url ui) < 4 then p
      else (case reserve_url ui p of
              (True, p') \<Rightarrow> enqueue_url ui p'
            | (False, p') \<Rightarrow> p'))"

definition add_to_que :: "UrlInfo \<Rightarrow> CUrlPool \<Rightarrow> CUrlPool" where
  "add_to_que ui p = (if length (ui_url ui) < 4 then p else enqueue_url ui p)"

text \<open>One turn of the loop of \<open>pop_url\<close>: \<open>None\<close> is another turn, after a sleep when the deque is
  empty and at once when its front is too short.\<close>

definition pop_url :: "CUrlPool \<Rightarrow> (UrlInfo \<times> CUrlPool) option" where
  "pop_url p =
     (case m_url_queue p of [] \<Rightarrow> None
      | ui # rest \<Rightarrow> if length (ui_url ui) < 4 then None else Some (ui, p\<lparr>m_url_queue := rest\<rparr>))"

lemmas pool_ops [spider_defs] =
  clear_urls_def reserve_url_def enqueue_url_def push_url_def add_to_que_def pop_url_def url_empty_def

section \<open>Loading a pool from a file\<close>

text \<open>
  What the loader strips from a line: a CR or LF at the last position, then a CR or LF at the
  last but one of the original length. Both positions are read without a test, so that a line of
  fewer than two characters, an empty line of the file for one, reads before the buffer: \<open>None\<close>.
  \<open>uc\<close> is the URL parser: the domain and the site of a URL. \<open>junk\<close> is the value of the field
  \<open>type\<close>, which \<open>load_urls\<close> leaves unset.
\<close>

definition eol :: "char \<Rightarrow> bool" where
  "eol c \<longleftrightarrow> c = LF \<or> c = CR"

definition strip_eol :: "string \<Rightarrow> string option" where
  "strip_eol line =
     (let s = cstr line; n = length s
      in if n < 2 then None
         else (let s1 = (if eol (s ! (n - 1)) then take (n - 1) s else s)
               in Some (if eol (s ! (n - 2)) then take (n - 2) s1 else s1)))"

definition load_line :: "(string \<Rightarrow> string \<times> string) \<Rightarrow> int \<Rightarrow> string \<Rightarrow> CUrlPool \<Rightarrow> CUrlPool option" where
  "load_line uc junk line p =
     map_option (\<lambda>u.
         if 4 < length u
         then p\<lparr>m_url_queue := m_url_queue p @
                  [\<lparr>ui_url = u, ui_last_crawl_time = 0, ui_domain = fst (uc u), ui_site = snd (uc u),
                    ui_type = junk\<rparr>],
                m_url_set := insert u (m_url_set p)\<rparr>
         else p) (strip_eol line)"

fun load_lines :: "(string \<Rightarrow> string \<times> string) \<Rightarrow> int \<Rightarrow> string list \<Rightarrow> CUrlPool \<Rightarrow> CUrlPool option" where
  "load_lines uc junk [] p = Some p"
| "load_lines uc junk (l # ls) p = Option.bind (load_line uc junk l p) (load_lines uc junk ls)"

text \<open>The lines \<open>fgets\<close> returns until it returns NULL, which is when it reads nothing.\<close>

partial_function (option) fgets_lines :: "nat \<Rightarrow> string \<Rightarrow> string list option" where
  "fgets_lines len s =
     (case fgets_chars (len - 1) s of (l, r, e) \<Rightarrow>
        if l = [] \<and> e then Some []
        else Option.bind (fgets_lines len r) (\<lambda>ls. Some (l # ls)))"

text \<open>\<open>FR_PROCESSERR\<close> is false; \<open>None\<close> is a loop that does not end or a read outside the buffer.\<close>

definition load_urls :: "CSpiderConf \<Rightarrow> (string \<Rightarrow> string \<times> string) \<Rightarrow> int \<Rightarrow> string option \<Rightarrow> CUrlPool
    \<Rightarrow> (bool \<times> CUrlPool) option" where
  "load_urls conf uc junk file p =
     (case file of None \<Rightarrow> Some (False, p)
      | Some content \<Rightarrow>
          Option.bind (fgets_lines (nat (max_url_len conf) + 1) content) (\<lambda>lines.
            map_option (\<lambda>p'. (True, p')) (load_lines uc junk lines p)))"

section \<open>Threads around the pool\<close>

text \<open>
  The crawling threads push; \<open>reserved\<close> are the URLs of threads between the two critical sections of
  \<open>push_url\<close>. The selecting thread empties the deque, puts back and clears; nobody calls \<open>pop_url\<close>.
  Emptying (\<open>select_url\<close>) is a loop over the deque and a \<open>clear\<close> behind it, and no mutex keeps
  the others out meanwhile: \<open>get_url_mutex\<close> returns a copy of the mutex, and it is the copy that is
  locked. So pushes can come between any two of its steps: \<open>Reading us\<close> has copied \<open>us\<close> so far,
  \<open>Leaving us\<close> has found the end and not yet called \<open>clear\<close>. \<open>clear_urls\<close> has two critical sections:
  after the first it is \<open>Forgetting\<close>. (That a push during the loop is a data race in C++ is not
  modelled: the deque is taken to work.)
\<close>

datatype drain = Idle | Reading "UrlInfo list" | Leaving "UrlInfo list" | Forgetting

text \<open>\<open>taken\<close> are the URLs the selecting thread has taken out; \<open>stale\<close> are those that were in the deque or
  in some thread's hand when the set was last cleared.\<close>

record upool_sys =
  up :: CUrlPool
  drain :: drain
  reserved :: "UrlInfo multiset"
  taken :: "UrlInfo multiset"
  stale :: "UrlInfo multiset"

definition upool_start :: upool_sys where
  "upool_start = \<lparr>up = pool_new, drain = Idle, reserved = {#}, taken = {#}, stale = {#}\<rparr>"

text \<open>Every URL the pool has accepted and somebody still has.\<close>

definition known_urls :: "upool_sys \<Rightarrow> UrlInfo multiset" where
  "known_urls s = mset (m_url_queue (up s)) + reserved s + taken s"

text \<open>\<open>read\<close> sets the type of the pool in the deque and copies the element; \<open>leave\<close> is a URL that goes to the
  selected queue or is dropped.\<close>

inductive upool_step :: "upool_sys \<Rightarrow> upool_sys \<Rightarrow> bool" where
  reserve: "4 \<le> length (ui_url ui) \<Longrightarrow> reserve_url ui (up s) = (True, p) \<Longrightarrow>
    upool_step s (s\<lparr>up := p, reserved := add_mset ui (reserved s)\<rparr>)"
| known: "4 \<le> length (ui_url ui) \<Longrightarrow> reserve_url ui (up s) = (False, p) \<Longrightarrow>
    upool_step s (s\<lparr>up := p\<rparr>)"
| enqueue: "ui \<in># reserved s \<Longrightarrow>
    upool_step s (s\<lparr>up := enqueue_url ui (up s), reserved := reserved s - {#ui#}\<rparr>)"
| begin_drain: "drain s = Idle \<Longrightarrow> upool_step s (s\<lparr>drain := Reading []\<rparr>)"
| read: "drain s = Reading us \<Longrightarrow> length us < length (m_url_queue (up s)) \<Longrightarrow>
    ui = (m_url_queue (up s) ! length us)\<lparr>ui_type := ty\<rparr> \<Longrightarrow>
    upool_step s (s\<lparr>up := (up s)\<lparr>m_url_queue := (m_url_queue (up s))[length us := ui]\<rparr>, drain := Reading (us @ [ui])\<rparr>)"
| at_end: "drain s = Reading us \<Longrightarrow> length us = length (m_url_queue (up s)) \<Longrightarrow>
    upool_step s (s\<lparr>drain := Leaving us\<rparr>)"
| end_drain: "drain s = Leaving us \<Longrightarrow>
    upool_step s (s\<lparr>up := (up s)\<lparr>m_url_queue := []\<rparr>, drain := Idle, taken := taken s + mset us\<rparr>)"
| put_back: "drain s = Idle \<Longrightarrow> ui \<in># taken s \<Longrightarrow>
    upool_step s (s\<lparr>up := add_to_que ui (up s), taken := taken s - {#ui#}\<rparr>)"
| leave: "ui \<in># taken s \<Longrightarrow> upool_step s (s\<lparr>taken := taken s - {#ui#}\<rparr>)"
| clear_queue: "drain s = Idle \<Longrightarrow>
    upool_step s (s\<lparr>up := (up s)\<lparr>m_url_queue := []\<rparr>, drain := Forgetting\<rparr>)"
| clear_set: "drain s = Forgetting \<Longrightarrow>
    upool_step s (s\<lparr>up := (up s)\<lparr>m_url_set := {}\<rparr>, drain := Idle, stale := known_urls s\<rparr>)"

inductive_cases upool_stepE: "upool_step s t"

inductive upool_reach :: "upool_sys \<Rightarrow> bool" where
  start: "upool_reach upool_start"
| step: "upool_reach s \<Longrightarrow> upool_step s t \<Longrightarrow> upool_reach t"

text \<open>The two sections of \<open>clear_urls\<close>, one after the other.\<close>

lemma clear_urls_sections:
  "clear_urls p = (p\<lparr>m_url_queue := []\<rparr>)\<lparr>m_url_set := {}\<rparr>" by (simp add: clear_urls_def)

text \<open>How often a URL is held, and how often it may be.\<close>

definition held :: "upool_sys \<Rightarrow> string \<Rightarrow> nat" where
  "held s u = count (image_mset ui_url (known_urls s)) u"

definition allowed :: "upool_sys \<Rightarrow> string \<Rightarrow> nat" where
  "allowed s u = (if u \<in> m_url_set (up s) then 1 else 0) + count (image_mset ui_url (stale s)) u"

text \<open>What the loop has copied is the front of the deque.\<close>

definition drain_inv :: "upool_sys \<Rightarrow> bool" where
  "drain_inv s \<longleftrightarrow> (case drain s of
       Reading us \<Rightarrow> length us \<le> length (m_url_queue (up s)) \<and> us = take (length us) (m_url_queue (up s))
     | Leaving us \<Rightarrow> length us \<le> length (m_url_queue (up s)) \<and> us = take (length us) (m_url_queue (up s))
     | _ \<Rightarrow> True)"

definition upool_inv :: "upool_sys \<Rightarrow> bool" where
  "upool_inv s \<longleftrightarrow> (\<forall>u. held s u \<le> allowed s u) \<and> drain_inv s"

lemma upool_inv_start: "upool_inv upool_start"
  by (simp add: upool_inv_def upool_start_def pool_new_def known_urls_def held_def drain_inv_def)

lemma drain_inv_step: "upool_step s t \<Longrightarrow> drain_inv s \<Longrightarrow> drain_inv t"
  by (erule upool_stepE)
    (auto simp: drain_inv_def reserve_url_def enqueue_url_def add_to_que_def take_Suc_conv_app_nth take_update_swap
      split: drain.splits if_splits)

lemma count_url_add: "count (image_mset ui_url (add_mset ui M)) u = of_bool (ui_url ui = u) + count (image_mset ui_url M) u"
  by simp

lemma count_url_remove:
  "ui \<in># M \<Longrightarrow> count (image_mset ui_url (M - {#ui#})) u = count (image_mset ui_url M) u - of_bool (ui_url ui = u)"
  by (simp add: image_mset_Diff)

lemma held_same:
  "\<forall>u. held s u \<le> allowed s u \<Longrightarrow> (\<And>u. held t u \<le> held s u) \<Longrightarrow> m_url_set (up t) = m_url_set (up s) \<Longrightarrow>
   stale t = stale s \<Longrightarrow> held t u \<le> allowed t u"
  by (metis allowed_def le_trans)

lemma held_step:
  assumes "upool_step s t" "upool_inv s"
  shows "held t u \<le> allowed t u"
  using assms(1)
proof (cases rule: upool_step.cases)
  case (reserve ui p)
  then have new: "ui_url ui \<notin> m_url_set (up s)" and p: "p = (up s)\<lparr>m_url_set := insert (ui_url ui) (m_url_set (up s))\<rparr>"
    by (auto simp: reserve_url_def split: if_splits)
  have "held s u \<le> allowed s u" using assms(2) by (simp add: upool_inv_def)
  with new show ?thesis
    by (auto simp: reserve(1) p held_def allowed_def known_urls_def)
next
  case (known ui p)
  then have "t = s" by (simp add: reserve_url_def split: if_splits)
  with assms(2) show ?thesis by (simp add: upool_inv_def)
next
  case (read us ui ty)
  have "map ui_url ((m_url_queue (up s))[length us := ui]) = map ui_url (m_url_queue (up s))"
    using read(3,4) by (simp add: map_update list_update_same_conv)
  then have "image_mset ui_url (mset ((m_url_queue (up s))[length us := ui])) = image_mset ui_url (mset (m_url_queue (up s)))"
    by (simp only: mset_map [symmetric])
  with assms(2) show ?thesis
    by (intro held_same [of s]) (simp_all add: upool_inv_def read(1) held_def known_urls_def)
next
  case (end_drain us)
  then have "us = take (length us) (m_url_queue (up s))" using assms(2) by (simp add: upool_inv_def drain_inv_def)
  then have "mset us \<subseteq># mset (m_url_queue (up s))" by (metis append_take_drop_id mset_append mset_subset_eq_add_left)
  then have "count (image_mset ui_url (mset us)) u \<le> count (image_mset ui_url (mset (m_url_queue (up s)))) u" for u
    by (intro mset_subset_eq_count image_mset_subseteq_mono)
  with assms(2) show ?thesis
    by (intro held_same [of s]) (simp_all add: upool_inv_def end_drain(1) held_def known_urls_def)
next
  case clear_set
  then show ?thesis by (simp add: held_def allowed_def known_urls_def)
next
  case (enqueue ui)
  with assms(2) show ?thesis
    by (intro held_same [of s])
      (auto simp: upool_inv_def held_def known_urls_def enqueue_url_def count_url_remove image_mset_Diff
        dest!: multi_member_split)
next
  case (put_back ui)
  with assms(2) show ?thesis
    by (intro held_same [of s])
      (auto simp: upool_inv_def held_def known_urls_def add_to_que_def enqueue_url_def dest!: multi_member_split)
next
  case (leave ui)
  with assms(2) show ?thesis
    by (intro held_same [of s]) (auto simp: upool_inv_def held_def known_urls_def dest!: multi_member_split)
qed (use assms(2) in \<open>intro held_same [of s]; simp add: upool_inv_def held_def known_urls_def\<close>)+

lemma upool_reach_inv: "upool_reach s \<Longrightarrow> upool_inv s"
proof (induction rule: upool_reach.induct)
  case start
  show ?case by (rule upool_inv_start)
next
  case (step s t)
  then show ?case unfolding upool_inv_def [of t]
    using held_step drain_inv_step by (auto simp: upool_inv_def)
qed

text \<open>Sequential facts: what one call does to the deque and to the set.\<close>

lemma push_url_queue:
  "m_url_queue (push_url ui p) =
    (if 4 \<le> length (ui_url ui) \<and> ui_url ui \<notin> m_url_set p then m_url_queue p @ [ui] else m_url_queue p)"
  by (auto simp: spider_defs)

lemma push_url_set:
  "m_url_set (push_url ui p) =
    (if 4 \<le> length (ui_url ui) then insert (ui_url ui) (m_url_set p) else m_url_set p)"
  by (auto simp: spider_defs)

lemma add_to_que_queue:
  "m_url_queue (add_to_que ui p) =
    (if 4 \<le> length (ui_url ui) then m_url_queue p @ [ui] else m_url_queue p)"
  by (simp add: spider_defs)

lemma add_to_que_set [simp]: "m_url_set (add_to_que ui p) = m_url_set p"
  by (simp add: spider_defs)

lemma fold_add_to_que_queue:
  "m_url_queue (fold add_to_que uis p) = m_url_queue p @ filter (\<lambda>ui. 4 \<le> length (ui_url ui)) uis"
  by (induction uis arbitrary: p) (auto simp: add_to_que_queue)

lemma fold_add_to_que_set [simp]: "m_url_set (fold add_to_que uis p) = m_url_set p"
  by (induction uis arbitrary: p) simp_all

text \<open>A run of pushes into a pool: the deque grows by the URLs that were not known, each once.\<close>

lemma fold_push_url_set:
  "m_url_set (fold push_url uis p) = m_url_set p \<union> {ui_url ui | ui. ui \<in> set uis \<and> 4 \<le> length (ui_url ui)}"
  by (induction uis arbitrary: p) (auto simp: push_url_set)

lemma fold_push_url_subset: "set (m_url_queue (fold push_url uis p)) \<subseteq> set (m_url_queue p) \<union> set uis"
proof (induction uis arbitrary: p)
  case (Cons ui uis)
  from Cons [of "push_url ui p"] show ?case by (auto simp: push_url_queue split: if_splits)
qed simp

text \<open>Into an empty pool: the first occurrence of each URL that is long enough, in the order pushed.\<close>

lemma fold_push_url_queue:
  "map ui_url (m_url_queue (fold push_url uis pool_new)) =
     rev (remdups (rev (filter (\<lambda>u. 4 \<le> length u) (map ui_url uis))))"
proof (induction uis rule: rev_induct)
  case (snoc ui uis)
  then show ?case
    by (auto simp: push_url_queue fold_push_url_set) (auto simp: pool_new_def)
qed (simp add: pool_new_def)

lemma fgets_lines_total:
  assumes "2 \<le> len"
  shows "\<exists>ls. fgets_lines len s = Some ls"
proof (induction "length s" arbitrary: s rule: less_induct)
  case less
  obtain k where k: "len - 1 = Suc k" using assms by (cases "len - 1") auto
  obtain l r e where lre: "fgets_chars (len - 1) s = (l, r, e)" by (metis prod_cases3)
  show ?case
  proof (cases "l = []")
    case True
    have e
    proof (rule ccontr)
      assume "\<not> e"
      with lre k True fgets_chars_progress [of k s l r] fgets_chars_append [of "Suc k" s l r e]
      show False by simp
    qed
    with True lre show ?thesis by (simp add: fgets_lines.simps [of len s])
  next
    case False
    then have "length r < length s" using fgets_chars_append [OF lre] by simp
    then obtain ls where "fgets_lines len r = Some ls" using less by blast
    with False lre show ?thesis by (simp add: fgets_lines.simps [of len s])
  qed
qed

section \<open>Properties\<close>

text \<open>C13: In every interleaving of the threads that push with the thread that empties, refills and clears a pool,
  every operation in its separate steps, a URL is held at most once by the deque, the threads about to
  enqueue it and the thread that took it out, and only if the set knows it; the one exception are URLs
  that were on their way when the set was cleared, which can be there once more for each time. Without
  such a URL the deque holds nothing twice.\<close>

theorem pool_urls_unique:
  assumes "upool_reach s"
  shows "held s u \<le> (if u \<in> m_url_set (up s) then 1 else 0) + count (image_mset ui_url (stale s)) u \<and>
    (stale s = {#} \<longrightarrow> distinct (map ui_url (m_url_queue (up s))))"
proof
  have inv: "held s u \<le> allowed s u" for u using upool_reach_inv [OF assms] by (simp add: upool_inv_def)
  then show "held s u \<le> (if u \<in> m_url_set (up s) then 1 else 0) + count (image_mset ui_url (stale s)) u"
    by (simp add: allowed_def)
  show "stale s = {#} \<longrightarrow> distinct (map ui_url (m_url_queue (up s)))"
  proof
    assume st: "stale s = {#}"
    have "count (mset (map ui_url (m_url_queue (up s)))) v \<le> held s v" for v by (simp add: held_def known_urls_def)
    moreover have "held s v \<le> 1" for v using inv [of v] st by (simp add: allowed_def split: if_splits)
    ultimately have "count (mset (map ui_url (m_url_queue (up s)))) v \<le> 1" for v using le_trans by blast
    then have "count (mset (map ui_url (m_url_queue (up s)))) v = (if v \<in> set (map ui_url (m_url_queue (up s))) then 1 else 0)" for v
      by (metis count_eq_zero_iff le_neq_implies_less less_one set_mset_mset)
    then show "distinct (map ui_url (m_url_queue (up s)))" by (intro distinct_count_atmost_1 [THEN iffD2] allI)
  qed
qed

text \<open>A pool between the end of the loop that empties it and its \<open>clear\<close>.\<close>

definition four_url :: UrlInfo where
  "four_url = \<lparr>ui_url = ''http'', ui_last_crawl_time = 0, ui_domain = [], ui_site = [], ui_type = 0\<rparr>"

lemma leaving_reach: "upool_reach (upool_start\<lparr>drain := Leaving []\<rparr>)"
proof -
  have "upool_step upool_start (upool_start\<lparr>drain := Reading []\<rparr>)"
    by (rule upool_step.begin_drain) (simp add: upool_start_def)
  then have 1: "upool_reach (upool_start\<lparr>drain := Reading []\<rparr>)" by (rule upool_reach.step [OF upool_reach.start])
  have "upool_step (upool_start\<lparr>drain := Reading []\<rparr>) ((upool_start\<lparr>drain := Reading []\<rparr>)\<lparr>drain := Leaving []\<rparr>)"
    by (rule upool_step.at_end) (simp_all add: upool_start_def pool_new_def)
  from upool_reach.step [OF 1 this] show ?thesis by simp
qed

lemma pool_urls_unique_witness:
  "\<exists>s. upool_reach s \<and> drain s = Leaving [] \<and> reserved s = {#four_url#} \<and> held s ''http'' \<le> 1"
proof -
  let ?s = "upool_start\<lparr>drain := Leaving []\<rparr>"
  have "reserve_url four_url (up ?s) = (True, pool_new\<lparr>m_url_set := {''http''}\<rparr>)"
    by (simp add: reserve_url_def upool_start_def pool_new_def four_url_def)
  from upool_step.reserve [OF _ this] have r: "upool_reach (?s\<lparr>up := pool_new\<lparr>m_url_set := {''http''}\<rparr>,
      reserved := add_mset four_url (reserved ?s)\<rparr>)"
    by (intro upool_reach.step [OF leaving_reach]) (simp add: four_url_def)
  from pool_urls_unique [OF r, of "''http''"] r show ?thesis
    by (intro exI [of _ "?s\<lparr>up := pool_new\<lparr>m_url_set := {''http''}\<rparr>, reserved := add_mset four_url (reserved ?s)\<rparr>"])
      (simp add: upool_start_def)
qed



end
