(* ===== verification/Dns_Message.thy ===== *)
theory Dns_Message
  imports Prelude "HOL-Library.Monad_Syntax"
begin

text \<open>
  \<open>CUdpDns\<close> (udpdns.h, udpdns.cpp): the spider's own DNS client. Messages are byte lists; a read
  outside the message buffer, a write past it and a copy past the caller's buffer are \<open>None\<close>. The
  sockets are the environment: what each system call returns is a field of \<open>dns_env\<close>.
\<close>

unbundle bit_operations_syntax

type_synonym byte = "8 word"

definition UDP_MSGLEN :: nat where "UDP_MSGLEN = 512"

definition m_query_id :: "16 word" where "m_query_id = 0x237F"

text \<open>\<open>htons\<close>: the two bytes of a 16-bit value in network order, and \<open>ntohs\<close>, its inverse.\<close>

definition put16 :: "16 word \<Rightarrow> byte list" where
  "put16 w = [ucast (drop_bit 8 w), ucast w]"

definition get16 :: "byte \<Rightarrow> byte \<Rightarrow> 16 word" where
  "get16 hi lo = push_bit 8 (ucast hi) OR ucast lo"

lemma get16_put16 [simp]: "get16 (ucast (drop_bit 8 w)) (ucast w) = w"
  unfolding get16_def
  by (rule bit_word_eqI) (auto simp: bit_simps)

definition rd :: "byte list \<Rightarrow> nat \<Rightarrow> byte option" where
  "rd buf i = (if i < length buf then Some (buf ! i) else None)"

definition rd16 :: "byte list \<Rightarrow> nat \<Rightarrow> 16 word option" where
  "rd16 buf i = do { hi \<leftarrow> rd buf i; lo \<leftarrow> rd buf (i + 1); Some (get16 hi lo) }"

section \<open>The query\<close>

record DNS_HEADER =
  h_id :: "16 word"
  flag_QR :: "16 word"
  flag_opcode :: "16 word"
  flag_AA :: "16 word"
  flag_TC :: "16 word"
  flag_RD :: "16 word"
  flag_RA :: "16 word"
  flag_zero :: "16 word"
  flag_rcode :: "16 word"
  quests :: "16 word"
  answers :: "16 word"
  author :: "16 word"
  addition :: "16 word"

text \<open>The bit fields of the struct, allocated from the least significant bit in the order they are
  declared, as the compiler the Makefile names (gcc on x86-64) does.\<close>

definition flags_word :: "DNS_HEADER \<Rightarrow> 16 word" where
  "flags_word h =
     flag_QR h OR push_bit 1 (flag_opcode h) OR push_bit 5 (flag_AA h) OR push_bit 6 (flag_TC h) OR
     push_bit 7 (flag_RD h) OR push_bit 8 (flag_RA h) OR push_bit 9 (flag_zero h) OR
     push_bit 12 (flag_rcode h)"

definition header_bytes :: "DNS_HEADER \<Rightarrow> byte list" where
  "header_bytes h = concat (map put16
     [h_id h, flags_word h, quests h, answers h, author h, addition h])"

definition query_header :: DNS_HEADER where
  "query_header = \<lparr>h_id = m_query_id, flag_QR = 0, flag_opcode = 0, flag_AA = 1, flag_TC = 0,
     flag_RD = 0, flag_RA = 1, flag_zero = 0, flag_rcode = 0,
     quests = 1, answers = 0, author = 0, addition = 0\<rparr>"

definition dot :: byte where "dot = 46"

text \<open>The loop over the labels of the domain: a length byte (an \<open>int\<close> stored into a \<open>char\<close>), the
  label, and the dot is skipped.\<close>

function encode_labels :: "byte list \<Rightarrow> byte list" where
  "encode_labels [] = []"
| "encode_labels (b # s) =
     (let l = takeWhile (\<lambda>x. x \<noteq> dot) (b # s); r = dropWhile (\<lambda>x. x \<noteq> dot) (b # s)
      in of_nat (length l) # l @ (case r of [] \<Rightarrow> [] | _ # r' \<Rightarrow> encode_labels r'))"
  by pat_completeness auto
termination
  by (relation "measure length")
    (auto dest: dropWhile_Cons_length [OF sym] split: if_splits)

declare encode_labels.simps [simp del]

definition bytes_of :: "string \<Rightarrow> byte list" where
  "bytes_of s = map of_char s"

text \<open>The bytes \<open>set_dns_query\<close> writes; its result is their number.\<close>

definition set_dns_query :: "string \<Rightarrow> byte list" where
  "set_dns_query domain =
     header_bytes query_header @ encode_labels (bytes_of (cstr domain)) @ [0] @ put16 1 @ put16 1"

section \<open>The response\<close>

definition get_dns_resonse_head :: "byte list \<Rightarrow> int option" where
  "get_dns_resonse_head buf = do {
     msg_id \<leftarrow> rd16 buf 0;
     if msg_id \<noteq> m_query_id then Some (- 1) else do {
     b2 \<leftarrow> rd buf 2;
     if b2 AND 0x80 \<noteq> 0x80 then Some (- 2) else do {
     b4 \<leftarrow> rd buf 4;
     if b4 AND 0x0F \<noteq> 0 then Some (- 3) else do {
     answer_count \<leftarrow> rd16 buf 6;
     if answer_count = 0 then Some (- 4) else Some (uint answer_count) }}}}"

text \<open>\<open>while (*cp != '\0') cp++\<close> from offset \<open>i\<close>.\<close>

definition skip_to_zero :: "byte list \<Rightarrow> nat \<Rightarrow> nat option" where
  "skip_to_zero buf i =
     (let n = length (takeWhile (\<lambda>b. b \<noteq> 0) (drop i buf))
      in if i + n < length buf then Some (i + n) else None)"

text \<open>The loop over the answers: \<open>Some (Some p)\<close> is the offset of the data of the first record of
  type A, class IN and length 4, \<open>Some None\<close> that there is none among the \<open>k\<close> answers.\<close>

fun scan_answers :: "byte list \<Rightarrow> nat \<Rightarrow> nat \<Rightarrow> nat option option" where
  "scan_answers buf 0 p = Some None"
| "scan_answers buf (Suc k) p = do {
     qt \<leftarrow> rd16 buf (p + 2);
     qc \<leftarrow> rd16 buf (p + 4);
     len \<leftarrow> rd16 buf (p + 10);
     if qt = 1 \<and> qc = 1 \<and> len = 4 then Some (Some (p + 12))
     else scan_answers buf k (p + 12 + unat len) }"

definition get32 :: "byte \<Rightarrow> byte \<Rightarrow> byte \<Rightarrow> byte \<Rightarrow> 32 word" where
  "get32 b1 b2 b3 b4 =
     push_bit 24 (ucast b1) OR push_bit 16 (ucast b2) OR push_bit 8 (ucast b3) OR ucast b4"

text \<open>\<open>sprintf(ip, "%d.%d.%d.%d", ...)\<close> of the four masked and shifted parts.\<close>

definition ip_text :: "32 word \<Rightarrow> string" where
  "ip_text a =
     dec_digits (unat (drop_bit 24 (a AND 0xFF000000))) @ ''.'' @
     dec_digits (unat (drop_bit 16 (a AND 0xFF0000))) @ ''.'' @
     dec_digits (unat (drop_bit 8 (a AND 0xFF00))) @ ''.'' @
     dec_digits (unat (a AND 0xFF))"

text \<open>The result and the string in the caller's buffer.\<close>

definition get_dns_response :: "byte list \<Rightarrow> (int \<times> string) option" where
  "get_dns_response buf = do {
     answer_count \<leftarrow> get_dns_resonse_head buf;
     if answer_count < 0 then Some (- 1, []) else do {
     q \<leftarrow> skip_to_zero buf 12;
     found \<leftarrow> scan_answers buf (nat answer_count) (q + 5);
     (case found of
        None \<Rightarrow> Some (- 2, [])
      | Some p \<Rightarrow> do {
          b1 \<leftarrow> rd buf p; b2 \<leftarrow> rd buf (p + 1); b3 \<leftarrow> rd buf (p + 2); b4 \<leftarrow> rd buf (p + 3);
          let ip = ip_text (get32 b1 b2 b3 b4);
          Some (int (length ip), ip) }) }}"

section \<open>Sending and receiving\<close>

text \<open>
  One exchange as the environment answers it: whether \<open>inet_addr\<close> takes the name for an address,
  the descriptor \<open>socket\<close> returns, the result of \<open>sendto\<close>, of \<open>select\<close>, and the datagram
  \<open>recvfrom\<close> reads (\<open>None\<close> for an error).
\<close>

record dns_env =
  inet_addr_ok :: bool
  socket_fd :: int
  sendto_rc :: int
  select_rc :: int
  datagram :: "byte list option"

text \<open>\<open>recvfrom\<close> writes at most 512 bytes over the buffer, and the code a NUL behind them.\<close>

definition received :: "byte list \<Rightarrow> byte list \<Rightarrow> int \<times> byte list" where
  "received d buf =
     (let r = take UDP_MSGLEN d in (int (length r), r @ [0] @ drop (length r + 1) buf))"

definition send_recv_msg :: "dns_env \<Rightarrow> byte list \<Rightarrow> int \<times> byte list" where
  "send_recv_msg env buf =
     (if sendto_rc env < 0 then (- 1, buf)
      else (case datagram env of None \<Rightarrow> (- 1, buf) | Some d \<Rightarrow> received d buf))"

definition send_recv_msgo :: "dns_env \<Rightarrow> byte list \<Rightarrow> int \<times> byte list" where
  "send_recv_msgo env buf =
     (if sendto_rc env < 0 then (- 1, buf)
      else if select_rc env > 0
      then (case datagram env of None \<Rightarrow> (- 1, buf) | Some d \<Rightarrow> received d buf)
      else (- 1, buf))"

text \<open>\<open>strcpy\<close> into a buffer of \<open>cap\<close> bytes.\<close>

definition strcpy_into :: "nat \<Rightarrow> string \<Rightarrow> string option" where
  "strcpy_into cap s = (if length (cstr s) < cap then Some (cstr s) else None)"

definition query_buffer :: "string \<Rightarrow> byte list option" where
  "query_buffer domain =
     (let q = set_dns_query domain
      in if length q \<le> UDP_MSGLEN + 1 then Some (q @ replicate (UDP_MSGLEN + 1 - length q) 0) else None)"

text \<open>What every variant does with the answer: an unreadable one leaves the empty string, and the
  empty string is -1. \<open>exchange\<close> is \<open>send_recv_msg\<close> or \<open>send_recv_msgo\<close>.\<close>

definition ask :: "(byte list \<Rightarrow> int \<times> byte list) \<Rightarrow> string \<Rightarrow> (int \<times> string) option" where
  "ask exchange domain = do {
     sendbuf \<leftarrow> query_buffer domain;
     let (recvlen, buf) = exchange sendbuf;
     ip \<leftarrow> (if recvlen \<le> 0 then Some []
            else do { (res_len, ip) \<leftarrow> get_dns_response buf; Some (if res_len < 0 then [] else ip) });
     Some (if ip = [] then - 1 else 0, ip) }"

text \<open>\<open>ip\<close> is the caller's buffer of \<open>cap\<close> bytes, in and out.\<close>

definition gethostipbyname_r :: "dns_env \<Rightarrow> nat \<Rightarrow> string \<Rightarrow> string \<Rightarrow> (int \<times> string) option" where
  "gethostipbyname_r env cap domain ip =
     (if inet_addr_ok env then map_option (Pair 0) (strcpy_into cap domain)
      else if socket_fd env = - 1 then Some (- 1, ip)
      else ask (send_recv_msg env) domain)"

definition gethostipbyname_r_o :: "dns_env \<Rightarrow> nat \<Rightarrow> string \<Rightarrow> string \<Rightarrow> (int \<times> string) option" where
  "gethostipbyname_r_o env cap domain ip =
     (if inet_addr_ok env then map_option (Pair 0) (strcpy_into cap domain)
      else if socket_fd env = - 1 then Some (- 1, ip)
      else ask (send_recv_msgo env) domain)"

text \<open>The variants over a descriptor of the caller, \<open>servaddr\<close> being NULL or not.\<close>

definition gethostwithfd_r :: "dns_env \<Rightarrow> bool \<Rightarrow> nat \<Rightarrow> string \<Rightarrow> string \<Rightarrow> (int \<times> string) option" where
  "gethostwithfd_r env servaddr_null cap domain ip =
     (if socket_fd env < 0 \<or> servaddr_null then Some (- 1, ip)
      else if inet_addr_ok env then map_option (Pair 0) (strcpy_into cap domain)
      else ask (send_recv_msg env) domain)"

definition gethostwithfd_r_o :: "dns_env \<Rightarrow> bool \<Rightarrow> nat \<Rightarrow> string \<Rightarrow> string \<Rightarrow> (int \<times> string) option" where
  "gethostwithfd_r_o env servaddr_null cap domain ip =
     (if socket_fd env < 0 \<or> servaddr_null then Some (- 1, ip)
      else if inet_addr_ok env then map_option (Pair 0) (strcpy_into cap domain)
      else ask (send_recv_msgo env) domain)"

section \<open>What the query is\<close>

text \<open>The wire format of RFC 1035, stated on its own: labels with a length byte each, and their
  decoder.\<close>

definition qname :: "byte list list \<Rightarrow> byte list" where
  "qname ls = concat (map (\<lambda>l. of_nat (length l) # l) ls)"

fun join_dots :: "byte list list \<Rightarrow> byte list" where
  "join_dots [] = []"
| "join_dots [l] = l"
| "join_dots (l # ls) = l @ dot # join_dots ls"

definition labels_ok :: "byte list list \<Rightarrow> bool" where
  "labels_ok ls \<longleftrightarrow> list_all (\<lambda>l. l \<noteq> [] \<and> length l < 256 \<and> dot \<notin> set l) ls"

fun decode_qname :: "nat \<Rightarrow> byte list \<Rightarrow> (byte list list \<times> byte list) option" where
  "decode_qname 0 bs = None"
| "decode_qname (Suc fuel) [] = None"
| "decode_qname (Suc fuel) (n # bs) =
     (if n = 0 then Some ([], bs)
      else if length bs < unat n then None
      else map_option (\<lambda>(ls, rest). (take (unat n) bs # ls, rest)) (decode_qname fuel (drop (unat n) bs)))"

lemma encode_labels_step:
  "s \<noteq> [] \<Longrightarrow> encode_labels s =
    (let l = takeWhile (\<lambda>x. x \<noteq> dot) s; r = dropWhile (\<lambda>x. x \<noteq> dot) s
     in of_nat (length l) # l @ (case r of [] \<Rightarrow> [] | _ # r' \<Rightarrow> encode_labels r'))"
  by (cases s) (simp_all only: encode_labels.simps)

lemma encode_labels_last: "l \<noteq> [] \<Longrightarrow> dot \<notin> set l \<Longrightarrow> encode_labels l = of_nat (length l) # l"
  by (simp add: encode_labels_step takeWhile_notin dropWhile_notin)

lemma encode_labels_dot:
  "dot \<notin> set l \<Longrightarrow> encode_labels (l @ dot # s) = of_nat (length l) # l @ encode_labels s"
  by (simp add: encode_labels_step takeWhile_upto dropWhile_upto)

lemma encode_labels_join: "labels_ok ls \<Longrightarrow> encode_labels (join_dots ls) = qname ls"
  by (induction ls rule: join_dots.induct)
    (auto simp: labels_ok_def qname_def encode_labels_last encode_labels_dot encode_labels.simps(1))

lemma decode_qname_append:
  "labels_ok ls \<Longrightarrow> length ls < fuel \<Longrightarrow> decode_qname fuel (qname ls @ 0 # rest) = Some (ls, rest)"
proof (induction ls arbitrary: fuel)
  case Nil
  then show ?case by (cases fuel) (auto simp: qname_def)
next
  case (Cons l ls)
  obtain f where f: "fuel = Suc f" using Cons.prems(2) by (cases fuel) auto
  have l: "0 < length l" "length l < 256" and ok: "labels_ok ls"
    using Cons.prems(1) by (auto simp: labels_ok_def)
  have u: "unat (of_nat (length l) :: byte) = length l"
    using l by (simp add: unat_of_nat take_bit_nat_eq_self)
  then have nz: "(of_nat (length l) :: byte) \<noteq> 0" using l(1) by (metis unat_0 less_numeral_extra(3))
  have "decode_qname f (qname ls @ 0 # rest) = Some (ls, rest)"
    using Cons.IH [OF ok] Cons.prems(2) f by simp
  then show ?case by (simp add: f qname_def u nz)
qed

lemma length_encode_labels: "length (encode_labels s) \<le> length s + 1"
proof (induction s rule: encode_labels.induct)
  case 1
  then show ?case by (simp add: encode_labels.simps)
next
  case (2 b s)
  let ?l = "takeWhile (\<lambda>x. x \<noteq> dot) (b # s)" and ?r = "dropWhile (\<lambda>x. x \<noteq> dot) (b # s)"
  have lr: "length ?l + length ?r = Suc (length s)"
    by (metis length_Cons length_append takeWhile_dropWhile_id)
  show ?case
  proof (cases ?r)
    case Nil
    then show ?thesis using lr by (simp add: encode_labels.simps(2) Let_def)
  next
    case (Cons d r')
    then have "length (encode_labels r') \<le> length r' + 1" using "2.IH" by blast
    moreover have "length ?l + length r' = length s" using lr Cons by simp
    ultimately show ?thesis by (simp only: encode_labels.simps(2) Let_def Cons list.case length_Cons length_append)
  qed
qed

lemma length_header_bytes [simp]: "length (header_bytes h) = 12"
  by (simp add: header_bytes_def put16_def)

lemma length_put16 [simp]: "length (put16 w) = 2"
  by (simp add: put16_def)

lemma length_bytes_of [simp]: "length (bytes_of s) = length s"
  by (simp add: bytes_of_def)

lemma length_set_dns_query_le: "length (set_dns_query domain) \<le> length (cstr domain) + 18"
  using length_encode_labels [of "bytes_of (cstr domain)"] by (simp add: set_dns_query_def)

section \<open>What the response gives\<close>

text \<open>A response as a server lays it out: header, the question for the labels asked, the answers with
  the name they are about, and anything behind them.\<close>

record rr =
  rr_name :: "byte list"
  rr_type :: "16 word"
  rr_class :: "16 word"
  rr_ttl :: "16 word \<times> 16 word"
  rr_data :: "byte list"

definition rr_bytes :: "rr \<Rightarrow> byte list" where
  "rr_bytes r = rr_name r @ put16 (rr_type r) @ put16 (rr_class r) @
     put16 (fst (rr_ttl r)) @ put16 (snd (rr_ttl r)) @ put16 (of_nat (length (rr_data r))) @ rr_data r"

record dns_reply =
  r_id :: "16 word"
  r_flags :: "byte \<times> byte"
  r_qdcount :: "16 word"
  r_nscount :: "16 word"
  r_arcount :: "16 word"
  r_qname :: "byte list"
  r_qtype :: "16 word"
  r_qclass :: "16 word"
  r_answers :: "rr list"

definition reply_bytes :: "dns_reply \<Rightarrow> byte list" where
  "reply_bytes r =
     put16 (r_id r) @ [fst (r_flags r), snd (r_flags r)] @ put16 (r_qdcount r) @
     put16 (of_nat (length (r_answers r))) @ put16 (r_nscount r) @ put16 (r_arcount r) @
     r_qname r @ [0] @ put16 (r_qtype r) @ put16 (r_qclass r) @ concat (map rr_bytes (r_answers r))"

definition is_address :: "rr \<Rightarrow> bool" where
  "is_address r \<longleftrightarrow> rr_type r = 1 \<and> rr_class r = 1 \<and> length (rr_data r) = 4"

definition dotted :: "byte list \<Rightarrow> string" where
  "dotted bs = (case bs of
      [b1, b2, b3, b4] \<Rightarrow> dec_digits (unat b1) @ ''.'' @ dec_digits (unat b2) @ ''.'' @
        dec_digits (unat b3) @ ''.'' @ dec_digits (unat b4)
    | _ \<Rightarrow> [])"

text \<open>The forms RFC 1035 gives a name: labels that a zero byte ends (in full), or labels, maybe none, that
  end with a pointer to an earlier place in the message. A pointer alone is a compressed name: it has
  two bytes.\<close>

definition plain_labels :: "byte list list \<Rightarrow> bool" where
  "plain_labels ls \<longleftrightarrow> list_all (\<lambda>l. l \<noteq> [] \<and> length l < 64 \<and> 0 \<notin> set l) ls"

definition pointer :: "byte list \<Rightarrow> bool" where
  "pointer bs \<longleftrightarrow> length bs = 2 \<and> hd bs AND 0xC0 = 0xC0"

definition wire_name :: "byte list \<Rightarrow> bool" where
  "wire_name bs \<longleftrightarrow> (\<exists>ls t. plain_labels ls \<and> bs = qname ls @ t \<and> (t = [0] \<or> pointer t))"

text \<open>A reply the header check lets through: our id, the response bit, at least one answer.\<close>

definition reply_ok :: "dns_reply \<Rightarrow> bool" where
  "reply_ok r \<longleftrightarrow>
     r_id r = m_query_id \<and> fst (r_flags r) AND 0x80 = 0x80 \<and> (ucast (drop_bit 8 (r_qdcount r)) :: byte) AND 0x0F = 0 \<and>
     r_answers r \<noteq> [] \<and> length (r_answers r) < 65536 \<and>
     list_all (\<lambda>a. wire_name (rr_name a) \<and> length (rr_data a) < 65536) (r_answers r) \<and> 0 \<notin> set (r_qname r)"

definition compressed :: "rr \<Rightarrow> bool" where
  "compressed a \<longleftrightarrow> pointer (rr_name a)"

lemma length_compressed: "compressed a \<Longrightarrow> length (rr_name a) = 2"
  by (simp add: compressed_def pointer_def)

lemma rd_append_right: "rd (xs @ ys) (length xs + i) = rd ys i"
  by (simp add: rd_def nth_append)

lemma rd_Cons_0: "rd (y # ys) 0 = Some y"
  by (simp add: rd_def)

lemma rd_Cons_Suc: "rd (y # ys) (Suc i) = rd ys i"
  by (simp add: rd_def)

lemma rd16_append_right: "rd16 (xs @ ys) (length xs + i) = rd16 ys i"
  unfolding rd16_def add.assoc rd_append_right ..

lemma rd16_put16: "rd16 (put16 w @ ys) 0 = Some w"
  by (simp add: rd16_def put16_def rd_Cons_0 rd_Cons_Suc)

lemma rd16_skip: "rd16 (put16 w @ ys) (Suc (Suc i)) = rd16 ys i"
  by (simp add: rd16_def put16_def rd_Cons_Suc)

lemma unat_of_nat_16: "n < 65536 \<Longrightarrow> unat (of_nat n :: 16 word) = n"
  by (simp add: unat_of_nat take_bit_nat_eq_self)

lemma of_nat_16_eq_4: "n < 65536 \<Longrightarrow> (of_nat n :: 16 word) = 4 \<longleftrightarrow> n = 4"
  by (simp add: word_unat_eq_iff unat_of_nat_16)

lemma rr_type_at: "length (rr_name r) = 2 \<Longrightarrow> rd16 (pre @ rr_bytes r @ post) (length pre + 2) = Some (rr_type r)"
  using rd16_append_right [of "pre @ rr_name r" _ 0]
  by (simp add: rr_bytes_def rd16_skip rd16_put16 numeral_eq_Suc)

lemma rr_class_at: "length (rr_name r) = 2 \<Longrightarrow> rd16 (pre @ rr_bytes r @ post) (length pre + 4) = Some (rr_class r)"
  using rd16_append_right [of "pre @ rr_name r" _ 2]
  by (simp add: rr_bytes_def rd16_skip rd16_put16 numeral_eq_Suc)

lemma rr_len_at: "length (rr_name r) = 2 \<Longrightarrow> rd16 (pre @ rr_bytes r @ post) (length pre + 10) = Some (of_nat (length (rr_data r)))"
  using rd16_append_right [of "pre @ rr_name r" _ 8]
  by (simp add: rr_bytes_def rd16_skip rd16_put16 numeral_eq_Suc)

lemma length_rr_bytes: "length (rr_name r) = 2 \<Longrightarrow> length (rr_bytes r) = 12 + length (rr_data r)"
  by (simp add: rr_bytes_def)

text \<open>The offset at which the loop stops is that of the data of the first address record.\<close>

lemma scan_answers_finds:
  "list_all (\<lambda>a. length (rr_name a) = 2 \<and> length (rr_data a) < 65536) rrs \<Longrightarrow>
   scan_answers (pre @ concat (map rr_bytes rrs) @ post) (length rrs) (length pre) =
     Some (case dropWhile (\<lambda>r. \<not> is_address r) rrs of [] \<Rightarrow> None
       | _ # _ \<Rightarrow> Some (length pre
            + length (concat (map rr_bytes (takeWhile (\<lambda>r. \<not> is_address r) rrs))) + 12))"
proof (induction rrs arbitrary: pre)
  case Nil
  then show ?case by simp
next
  case (Cons r rrs)
  let ?buf = "pre @ rr_bytes r @ concat (map rr_bytes rrs) @ post"
  have len: "length (rr_data r) < 65536" and nm: "length (rr_name r) = 2"
    and ok: "list_all (\<lambda>a. length (rr_name a) = 2 \<and> length (rr_data a) < 65536) rrs"
    using Cons.prems by auto
  have next_pos: "length pre + 12 + unat (of_nat (length (rr_data r)) :: 16 word) = length (pre @ rr_bytes r)"
    using len nm by (simp add: unat_of_nat_16 length_rr_bytes)
  have hit: "(rr_type r = 1 \<and> rr_class r = 1 \<and> (of_nat (length (rr_data r)) :: 16 word) = 4) = is_address r"
    using len by (simp add: is_address_def of_nat_16_eq_4)
  have IH: "scan_answers ?buf (length rrs) (length (pre @ rr_bytes r)) =
     Some (case dropWhile (\<lambda>r. \<not> is_address r) rrs of [] \<Rightarrow> None
       | _ # _ \<Rightarrow> Some (length (pre @ rr_bytes r)
            + length (concat (map rr_bytes (takeWhile (\<lambda>r. \<not> is_address r) rrs))) + 12))"
    using Cons.IH [OF ok, of "pre @ rr_bytes r"] by simp
  have e: "pre @ concat (map rr_bytes (r # rrs)) @ post = ?buf" by simp
  have step: "scan_answers ?buf (Suc (length rrs)) (length pre) =
      (if is_address r then Some (Some (length pre + 12))
       else scan_answers ?buf (length rrs) (length (pre @ rr_bytes r)))"
    unfolding scan_answers.simps rr_type_at [OF nm] rr_class_at [OF nm] rr_len_at [OF nm] Option.bind.bind_lunit hit next_pos ..
  show ?case
  proof (cases "is_address r")
    case True
    then show ?thesis unfolding e length_Cons step by simp
  next
    case False
    then show ?thesis unfolding e length_Cons step 
      using IH nm by (simp add: length_rr_bytes del: dropWhile_eq_Nil_conv split: list.splits)
  qed
qed

lemma reply_split:
  "reply_bytes r =
    (put16 (r_id r) @ [fst (r_flags r), snd (r_flags r)] @ put16 (r_qdcount r) @
     put16 (of_nat (length (r_answers r))) @ put16 (r_nscount r) @ put16 (r_arcount r)) @
    r_qname r @ 0 # (put16 (r_qtype r) @ put16 (r_qclass r)) @ concat (map rr_bytes (r_answers r))"
  by (simp add: reply_bytes_def)

lemma reply_head: "reply_ok r \<Longrightarrow> get_dns_resonse_head (reply_bytes r @ post) = Some (int (length (r_answers r)))"
proof -
  assume ok: "reply_ok r"
  have n: "length (r_answers r) < 65536" "r_answers r \<noteq> []" using ok by (auto simp: reply_ok_def)
  have u: "uint (of_nat (length (r_answers r)) :: 16 word) = int (length (r_answers r))"
    using unat_of_nat_16 [OF n(1)] by (metis uint_nat)
  then have nz: "(of_nat (length (r_answers r)) :: 16 word) \<noteq> 0" using n(2) by auto
  show ?thesis
    using ok nz u
    by (simp add: get_dns_resonse_head_def reply_bytes_def rd16_def rd_def put16_def reply_ok_def)
qed

lemma skip_question:
  "length h = 12 \<Longrightarrow> 0 \<notin> set qn \<Longrightarrow> skip_to_zero (h @ qn @ 0 # rest) 12 = Some (12 + length qn)"
  by (simp add: skip_to_zero_def takeWhile_upto)

lemma find_dropWhile: "find P xs = (case dropWhile (\<lambda>x. \<not> P x) xs of [] \<Rightarrow> None | a # _ \<Rightarrow> Some a)"
  by (induction xs) auto

lemma part_bytes:
  "drop_bit 24 (get32 b1 b2 b3 b4 AND 0xFF000000) = ucast b1"
  "drop_bit 16 (get32 b1 b2 b3 b4 AND 0xFF0000) = ucast b2"
  "drop_bit 8 (get32 b1 b2 b3 b4 AND 0xFF00) = ucast b3"
  "get32 b1 b2 b3 b4 AND 0xFF = ucast b4"
proof -
  have m: "(0xFF000000 :: 32 word) = push_bit 24 (mask 8)" "(0xFF0000 :: 32 word) = push_bit 16 (mask 8)"
    "(0xFF00 :: 32 word) = push_bit 8 (mask 8)" "(0xFF :: 32 word) = mask 8"
    by (simp_all add: mask_eq_exp_minus_1)
  show "drop_bit 24 (get32 b1 b2 b3 b4 AND 0xFF000000) = ucast b1"
    "drop_bit 16 (get32 b1 b2 b3 b4 AND 0xFF0000) = ucast b2"
    "drop_bit 8 (get32 b1 b2 b3 b4 AND 0xFF00) = ucast b3"
    "get32 b1 b2 b3 b4 AND 0xFF = ucast b4"
    unfolding get32_def m by (rule bit_word_eqI, auto simp: bit_simps dest: bit_imp_le_length)+
qed

lemma unat_ucast_byte: "unat (ucast (b :: byte) :: 32 word) = unat b"
proof -
  have "unat b < 2 ^ LENGTH(8)" by (rule unsigned_less)
  then have "unat b < 2 ^ 32" by simp
  then show ?thesis by (simp add: unsigned_ucast_eq take_bit_nat_eq_self)
qed

lemma ip_text_dotted: "ip_text (get32 b1 b2 b3 b4) = dotted [b1, b2, b3, b4]"
  unfolding ip_text_def part_bytes unat_ucast_byte by (simp add: dotted_def)

lemma read_data:
  assumes "length (rr_data a) = 4" "length (rr_name a) = 2"
  shows "do { b1 \<leftarrow> rd (pre @ rr_bytes a @ post) (length pre + 12);
       b2 \<leftarrow> rd (pre @ rr_bytes a @ post) (length pre + 12 + 1);
       b3 \<leftarrow> rd (pre @ rr_bytes a @ post) (length pre + 12 + 2);
       b4 \<leftarrow> rd (pre @ rr_bytes a @ post) (length pre + 12 + 3);
       f b1 b2 b3 b4 } = f (rr_data a ! 0) (rr_data a ! 1) (rr_data a ! 2) (rr_data a ! 3)"
proof -
  obtain h where h: "rr_bytes a = h @ rr_data a" "length h = 12"
    using assms(2) by (simp add: rr_bytes_def)
  have r: "rd (pre @ rr_bytes a @ post) (length pre + 12 + i) = Some (rr_data a ! i)" if "i < 4" for i
    using that assms h(2) rd_append_right [of "pre @ h" "rr_data a @ post" i]
    by (simp add: h(1) rd_def nth_append)
  show ?thesis using r [of 0] r [of 1] r [of 2] r [of 3] by simp
qed

text \<open>What the parser does with a reply up to its answers, which begin at offset \<open>length pre\<close>.\<close>

definition reply_front :: "dns_reply \<Rightarrow> byte list" where
  "reply_front r = (put16 (r_id r) @ [fst (r_flags r), snd (r_flags r)] @ put16 (r_qdcount r) @
     put16 (of_nat (length (r_answers r))) @ put16 (r_nscount r) @ put16 (r_arcount r)) @
     r_qname r @ 0 # (put16 (r_qtype r) @ put16 (r_qclass r))"

lemma reply_front_split: "reply_bytes r = reply_front r @ concat (map rr_bytes (r_answers r))"
  by (simp add: reply_bytes_def reply_front_def)

lemma get_dns_response_front:
  assumes ok: "reply_ok r"
  shows "get_dns_response (reply_bytes r @ post) = do {
     found \<leftarrow> scan_answers (reply_bytes r @ post) (length (r_answers r)) (length (reply_front r));
     (case found of None \<Rightarrow> Some (- 2, [])
      | Some p \<Rightarrow> do {
          b1 \<leftarrow> rd (reply_bytes r @ post) p; b2 \<leftarrow> rd (reply_bytes r @ post) (p + 1);
          b3 \<leftarrow> rd (reply_bytes r @ post) (p + 2); b4 \<leftarrow> rd (reply_bytes r @ post) (p + 3);
          let ip = ip_text (get32 b1 b2 b3 b4);
          Some (int (length ip), ip) }) }"
proof -
  define h where "h = put16 (r_id r) @ [fst (r_flags r), snd (r_flags r)] @ put16 (r_qdcount r) @
     put16 (of_nat (length (r_answers r))) @ put16 (r_nscount r) @ put16 (r_arcount r)"
  have h12: "length h = 12" by (simp add: h_def)
  have e: "reply_bytes r @ post = h @ r_qname r @ 0 # (put16 (r_qtype r) @ put16 (r_qclass r) @
      concat (map rr_bytes (r_answers r)) @ post)" by (simp add: reply_split h_def)
  have skip: "skip_to_zero (reply_bytes r @ post) 12 = Some (12 + length (r_qname r))"
    unfolding e by (rule skip_question [OF h12]) (use ok in \<open>simp add: reply_ok_def\<close>)
  have lp: "12 + length (r_qname r) + 5 = length (reply_front r)" by (simp add: reply_front_def)
  show ?thesis
    unfolding get_dns_response_def reply_head [OF ok] skip Option.bind.bind_lunit lp
    by (simp only: of_nat_less_0_iff if_False nat_int)
qed

text \<open>The address the client gets out of a reply with compressed names is the first A record's.\<close>

lemma get_dns_response_reply:
  assumes ok: "reply_ok r" and small: "list_all compressed (r_answers r)"
  shows "get_dns_response (reply_bytes r @ post) =
    Some (case find is_address (r_answers r) of None \<Rightarrow> (- 2, [])
      | Some a \<Rightarrow> (int (length (dotted (rr_data a))), dotted (rr_data a)))"
proof -
  let ?as = "r_answers r" and ?pre = "reply_front r"
  let ?buf = "?pre @ concat (map rr_bytes ?as) @ post"
  have buf: "reply_bytes r @ post = ?buf" by (simp add: reply_front_split)
  have data: "list_all (\<lambda>a. length (rr_name a) = 2 \<and> length (rr_data a) < 65536) ?as"
    using ok small by (auto simp: reply_ok_def list_all_iff length_compressed)
  note front = get_dns_response_front [OF ok, of post, unfolded buf]
  show ?thesis
  proof (cases "dropWhile (\<lambda>r. \<not> is_address r) ?as")
    case Nil
    then show ?thesis
      using front scan_answers_finds [OF data, of ?pre post]
      by (simp add: buf find_dropWhile del: dropWhile_eq_Nil_conv)
  next
    case (Cons a as)
    let ?before = "takeWhile (\<lambda>r. \<not> is_address r) ?as"
    have split: "?as = ?before @ a # as" by (metis Cons takeWhile_dropWhile_id)
    have a: "length (rr_data a) = 4" using Cons by (metis dropWhile_eq_Cons_conv is_address_def)
    have "a \<in> set ?as" by (subst split) simp
    then have nm: "length (rr_name a) = 2" using data by (simp add: list_all_iff)
    have buf2: "?buf = (?pre @ concat (map rr_bytes ?before)) @ rr_bytes a @ concat (map rr_bytes as) @ post"
      by (subst split) simp
    have scan: "scan_answers ?buf (length ?as) (length ?pre) =
        Some (Some (length (?pre @ concat (map rr_bytes ?before)) + 12))"
      using scan_answers_finds [OF data, of ?pre post] Cons by simp
    have d: "dotted (rr_data a) = ip_text (get32 (rr_data a ! 0) (rr_data a ! 1) (rr_data a ! 2) (rr_data a ! 3))"
      using a by (auto simp: ip_text_dotted numeral_eq_Suc length_Suc_conv)
    obtain B p where B: "B = ?buf" and p: "p = length (?pre @ concat (map rr_bytes ?before)) + 12"
      by blast
    have "get_dns_response B = do { b1 \<leftarrow> rd B p; b2 \<leftarrow> rd B (p + 1); b3 \<leftarrow> rd B (p + 2);
        b4 \<leftarrow> rd B (p + 3);
        Some (int (length (ip_text (get32 b1 b2 b3 b4))), ip_text (get32 b1 b2 b3 b4)) }"
      using front [folded B] scan [folded B p] by (simp add: Let_def)
    also have "\<dots> = Some (int (length (dotted (rr_data a))), dotted (rr_data a))"
      unfolding B p buf2 read_data [OF a nm] d ..
    finally show ?thesis unfolding buf B find_dropWhile Cons by simp
  qed
qed

lemma length_dec_byte: "length (dec_digits (unat (b :: byte))) \<le> 3"
proof -
  have "unat b < 2 ^ LENGTH(8)" by (rule unsigned_less)
  then have "unat b < 10 ^ Suc 2" by simp
  then show ?thesis using length_dec_digits_le by fastforce
qed

lemma length_ip_text: "length (ip_text (get32 b1 b2 b3 b4)) \<le> 15"
  using length_dec_byte [of b1] length_dec_byte [of b2] length_dec_byte [of b3] length_dec_byte [of b4]
  by (simp add: ip_text_dotted dotted_def)

lemma ip_text_nonempty: "ip_text (get32 b1 b2 b3 b4) \<noteq> []"
  by (simp add: ip_text_dotted dotted_def)

lemma get_dns_response_text:
  "get_dns_response buf = Some (n, ip) \<Longrightarrow>
   length ip \<le> 15 \<and> (if n < 0 then ip = [] else ip \<noteq> [] \<and> n = int (length ip))"
  by (auto simp: get_dns_response_def Let_def length_ip_text ip_text_nonempty
      split: bind_splits option.splits if_splits)

lemma query_buffer_fits: "length (cstr domain) \<le> 495 \<Longrightarrow>
  query_buffer domain = Some (set_dns_query domain @ replicate (513 - length (set_dns_query domain)) 0)"
  using length_set_dns_query_le [of domain] by (simp add: query_buffer_def UDP_MSGLEN_def Let_def)

text \<open>The bounded buffer that an answered exchange hands to the parser.\<close>

lemma received_buffer: "length d \<le> 512 \<Longrightarrow>
  received d buf = (int (length d), d @ 0 # drop (length d + 1) buf)"
  by (simp add: received_def UDP_MSGLEN_def)

section \<open>A name in full\<close>

text \<open>Two bytes into a record whose name is in full are never the type A.\<close>

lemma get16_1: "get16 hi lo = 1 \<Longrightarrow> hi = 0"
proof -
  assume g: "get16 hi lo = 1"
  have "bit (get16 hi lo) (n + 8) = bit hi n" if "n < 8" for n
    using that by (auto simp: get16_def bit_simps dest: bit_imp_le_length)
  then have "\<not> bit hi n" if "n < 8" for n
    using that unfolding g by (simp add: bit_1_iff)
  then show "hi = 0" by (intro bit_word_eqI) simp
qed

lemma full_name_bytes:
  assumes "plain_labels ls" "ls \<noteq> []"
  shows "3 \<le> length (qname ls @ [0]) \<and>
    (length (qname ls @ [0]) = 3 \<or> (qname ls @ [0 :: byte]) ! 2 \<noteq> 0)"
proof -
  obtain l rest where ls: "ls = l # rest" using assms(2) by (cases ls) auto
  have l: "l \<noteq> []" "length l < 64" "0 \<notin> set l" and rest: "plain_labels rest"
    using assms(1) by (auto simp: ls plain_labels_def)
  have "(qname ls @ [0]) ! 2 \<noteq> 0" if "length l \<ge> 2"
  proof -
    have "(qname ls @ [0]) ! 2 = l ! 1" using that by (simp add: ls qname_def nth_append numeral_eq_Suc)
    moreover have "l ! 1 \<in> set l" using that by (intro nth_mem) simp
    ultimately show ?thesis using l(3) by metis
  qed
  moreover have "(qname ls @ [0]) ! 2 \<noteq> 0" if one: "length l = 1" and more: "rest \<noteq> []"
  proof -
    obtain k rest' where r: "rest = k # rest'" using more by (cases rest) auto
    have k: "0 < length k" "length k < 64" using rest by (auto simp: r plain_labels_def)
    have "unat (of_nat (length k) :: byte) = length k"
      using k by (simp add: unat_of_nat take_bit_nat_eq_self)
    then have "(of_nat (length k) :: byte) \<noteq> 0" using k(1) by (metis unat_0 less_numeral_extra(3))
    moreover have "(qname ls @ [0]) ! 2 = of_nat (length k)"
      using one by (simp add: ls r qname_def nth_append numeral_eq_Suc)
    ultimately show ?thesis by simp
  qed
  moreover have "length (qname ls @ [0 :: byte]) = 3" if "length l = 1" "rest = []"
    using that by (simp add: ls qname_def)
  moreover have one: "1 \<le> length l" using l(1) by (cases l) simp_all
  moreover have "3 \<le> length (qname ls @ [0])" using one by (simp add: ls qname_def)
  moreover have "length l = 1 \<or> length l \<ge> 2" using one by linarith
  ultimately show ?thesis by blast
qed

lemma rd_middle: "i < length xs \<Longrightarrow> rd (pre @ xs @ post) (length pre + i) = Some (xs ! i)"
  by (simp add: rd_def nth_append)

lemma full_name_no_type_A:
  assumes "plain_labels ls" "ls \<noteq> []" "rr_name a = qname ls @ [0]" "rr_type a = 1"
  shows "\<exists>w. rd16 (pre @ rr_bytes a @ post) (length pre + 2) = Some w \<and> w \<noteq> 1"
proof -
  let ?n = "rr_name a"
  define hi where "hi = rr_bytes a ! 2"
  define lo where "lo = rr_bytes a ! 3"
  note b = hi_def lo_def
  have len: "2 < length (rr_bytes a)" "3 < length (rr_bytes a)"
    using full_name_bytes [OF assms(1,2)] by (simp_all add: rr_bytes_def assms(3) put16_def)
  have off: "length pre + 2 + 1 = length pre + 3" by simp
  have r: "rd (pre @ rr_bytes a @ post) (length pre + 2) = Some hi" "rd (pre @ rr_bytes a @ post) (length pre + 2 + 1) = Some lo"
    unfolding b off by (rule rd_middle [OF len(1)], rule rd_middle [OF len(2)])
  have "get16 hi lo \<noteq> 1"
  proof (cases "length ?n = 3")
    case True
    then have "hi = 0" "lo = 0"
      by (simp_all add: b rr_bytes_def assms(3,4) nth_append put16_def)
    then show ?thesis by (simp add: get16_def)
  next
    case False
    then have "2 < length ?n" "?n ! 2 \<noteq> 0" using full_name_bytes [OF assms(1,2)] unfolding assms(3) by linarith+
    then have "hi \<noteq> 0" by (simp add: b rr_bytes_def nth_append)
    then show ?thesis using get16_1 by blast
  qed
  then show ?thesis using r by (simp add: rd16_def)
qed

section \<open>Properties\<close>

text \<open>C19: The query for a host name is a DNS message for that name: read back by the wire format of RFC 1035 its
  question is the labels of the name, type A, class IN, and nothing follows; its header is the fixed
  twelve bytes with one question. The second flags byte is 0x20, which is not the bit (RD or RA) that
  the struct's field names suggest.\<close>

theorem query_decodes:
  assumes "labels_ok ls" "bytes_of (cstr domain) = join_dots ls"
  shows "decode_qname (length ls + 1) (drop 12 (set_dns_query domain)) = Some (ls, [0, 1, 0, 1]) \<and>
    take 12 (set_dns_query domain) = [0x23, 0x7F, 0x01, 0x20, 0, 1, 0, 0, 0, 0, 0, 0]"
proof -
  have h: "header_bytes query_header = [0x23, 0x7F, 0x01, 0x20, 0, 1, 0, 0, 0, 0, 0, 0]"
    by (simp add: header_bytes_def query_header_def flags_word_def put16_def m_query_id_def)
  have q: "set_dns_query domain = header_bytes query_header @ qname ls @ 0 # [0, 1, 0, 1]"
    using assms by (simp add: set_dns_query_def encode_labels_join put16_def)
  have "decode_qname (length ls + 1) (qname ls @ 0 # [0, 1, 0, 1]) = Some (ls, [0, 1, 0, 1])"
    by (rule decode_qname_append [OF assms(1)]) simp
  then show ?thesis unfolding q by (simp add: h)
qed

lemma query_decodes_witness:
  "decode_qname 3 (drop 12 (set_dns_query ''a.cn'')) = Some ([bytes_of ''a'', bytes_of ''cn''], [0, 1, 0, 1])"
proof -
  have "labels_ok [bytes_of ''a'', bytes_of ''cn'']" "bytes_of (cstr ''a.cn'') = join_dots [bytes_of ''a'', bytes_of ''cn'']"
    by (simp_all add: labels_ok_def bytes_of_def dot_def of_char_def)
  from query_decodes [OF this] show ?thesis by (simp add: numeral_eq_Suc)
qed

definition net_reply :: "byte list \<Rightarrow> dns_env" where
  "net_reply d = \<lparr>inet_addr_ok = False, socket_fd = 3, sendto_rc = 512, select_rc = 1, datagram = Some d\<rparr>"

definition sample_reply :: dns_reply where
  "sample_reply = \<lparr>r_id = m_query_id, r_flags = (0x81, 0x80), r_qdcount = 1, r_nscount = 0, r_arcount = 0,
     r_qname = [1, 97], r_qtype = 1, r_qclass = 1,
     r_answers = [\<lparr>rr_name = [0xC0, 0x0C], rr_type = 5, rr_class = 1, rr_ttl = (0, 9), rr_data = [1, 98, 0]\<rparr>,
                  \<lparr>rr_name = [0xC0, 0x0C], rr_type = 1, rr_class = 1, rr_ttl = (0, 9), rr_data = [10, 0, 0, 7]\<rparr>]\<rparr>"



text \<open>C40: Names in full are misread: the parser takes every name for two bytes long. A well-formed reply whose
  only record is an A record with its name in full has the address, but the lookup fails.\<close>

theorem full_name_is_misread:
  assumes "reply_ok r" "r_answers r = [a]" "is_address a" "rr_name a = qname ls @ [0]" "plain_labels ls" "ls \<noteq> []"
    and "length (reply_bytes r) \<le> 512" "length (cstr domain) \<le> 495"
    and "\<not> inet_addr_ok env" "socket_fd env \<noteq> - 1" "0 \<le> sendto_rc env" "0 < select_rc env"
    and "datagram env = Some (reply_bytes r)"
  shows "gethostipbyname_r_o env cap domain ip = Some (- 1, [])"
proof -
  have ne: "0 < length (reply_bytes r)" by (simp add: reply_bytes_def put16_def)
  obtain post where post: "received (reply_bytes r) (set_dns_query domain @ replicate (513 - length (set_dns_query domain)) 0) =
      (int (length (reply_bytes r)), reply_bytes r @ post)"
    using received_buffer [OF assms(7)] by blast
  let ?pre = "reply_front r"
  have buf: "reply_bytes r @ post = ?pre @ rr_bytes a @ post" by (simp add: reply_front_split assms(2))
  have a: "rr_type a = 1" "length (rr_data a) = 4" using assms(3) by (simp_all add: is_address_def)
  obtain w where w: "rd16 (reply_bytes r @ post) (length ?pre + 2) = Some w" "w \<noteq> 1"
    using full_name_no_type_A [OF assms(5,6,4) a(1), of ?pre post] unfolding buf by blast
  have "17 \<le> length (rr_bytes a)"
    using full_name_bytes [OF assms(5,6)] a(2) by (simp add: rr_bytes_def assms(4) put16_def)
  then have "\<exists>v. rd16 (reply_bytes r @ post) (length ?pre + i) = Some v" if "i \<le> 10" for i
    using that unfolding buf by (simp add: rd16_def rd_def)
  from this [of 4] this [of 10] obtain c len where "rd16 (reply_bytes r @ post) (length ?pre + 4) = Some c"
    "rd16 (reply_bytes r @ post) (length ?pre + 10) = Some len" by auto
  with w have "scan_answers (reply_bytes r @ post) (Suc 0) (length ?pre) = Some None" by simp
  then have g: "get_dns_response (reply_bytes r @ post) = Some (- 2, [])"
    using get_dns_response_front [OF assms(1), of post] by (simp add: assms(2))
  show ?thesis
    using assms(9-13) ne
    by (simp add: gethostipbyname_r_o_def ask_def query_buffer_fits [OF assms(8)] send_recv_msgo_def post g)
qed

definition full_name_reply :: dns_reply where
  "full_name_reply = sample_reply\<lparr>r_answers := [\<lparr>rr_name = [1, 97, 0], rr_type = 1, rr_class = 1, rr_ttl = (0, 9),
     rr_data = [10, 0, 0, 7]\<rparr>]\<rparr>"

lemma full_name_is_misread_witness:
  "gethostipbyname_r_o (net_reply (reply_bytes full_name_reply)) 32 ''a'' [] = Some (- 1, [])"
proof -
  have q: "[1, 97, 0] = qname [[97 :: byte]] @ [0]" by (simp add: qname_def)
  have p: "plain_labels [[97]]" by (simp add: plain_labels_def)
  have "wire_name [1, 97, 0]"
    unfolding wire_name_def q by (rule exI [of _ "[[97]]"], rule exI [of _ "[0]"]) (simp add: p)
  moreover have "(ucast (drop_bit 8 (1 :: 16 word)) :: byte) = 0" by simp
  ultimately have ok: "reply_ok full_name_reply" by (simp add: reply_ok_def full_name_reply_def sample_reply_def)
  let ?a = "\<lparr>rr_name = [1, 97, 0], rr_type = 1, rr_class = 1, rr_ttl = (0, 9), rr_data = [10, 0, 0, 7]\<rparr>"
  have a: "r_answers full_name_reply = [?a]" "is_address ?a" "rr_name ?a = qname [[97]] @ [0]"
    by (simp_all add: full_name_reply_def is_address_def qname_def)
  show ?thesis
    by (rule full_name_is_misread [OF ok a p])
      (simp_all add: net_reply_def reply_bytes_def full_name_reply_def sample_reply_def rr_bytes_def put16_def)
qed

text \<open>C37: The parser trusts the lengths in the reply: a datagram of 512 bytes with a header that is accepted and
  no zero byte behind it makes the lookup read outside the message buffer.\<close>

theorem crafted_reply_reads_outside:
  assumes "length d = 512" "take 12 d = put16 m_query_id @ [0x80, 0, 0, 1, 0, 1, 0, 0, 0, 0]" "0 \<notin> set (drop 12 d)"
    and "length (cstr domain) \<le> 495" "\<not> inet_addr_ok env" "socket_fd env \<noteq> - 1" "0 \<le> sendto_rc env"
    and "0 < select_rc env" "datagram env = Some d"
  shows "gethostipbyname_r_o env cap domain ip = None"
proof -
  obtain t where d: "d = (put16 m_query_id @ [0x80, 0, 0, 1, 0, 1, 0, 0, 0, 0]) @ t" and t: "0 \<notin> set t" "length t = 500"
  proof
    show "d = (put16 m_query_id @ [0x80, 0, 0, 1, 0, 1, 0, 0, 0, 0]) @ drop 12 d"
      using assms(2) by (metis append_take_drop_id)
  qed (use assms(1,3) in simp_all)
  have buf: "received d b = (512, d @ [0] @ drop 513 b)" for b
    using assms(1) by (simp add: received_def UDP_MSGLEN_def)
  have lb: "drop 513 (set_dns_query domain) = []"
    using length_set_dns_query_le [of domain] assms(4) by simp
  let ?B = "d @ [0 :: byte]"
  have head: "get_dns_resonse_head ?B = Some 1"
    by (simp add: get_dns_resonse_head_def d put16_def rd16_def rd_def get16_def m_query_id_def)
  have "takeWhile (\<lambda>b. b \<noteq> 0) (drop 12 ?B) = t"
    using t by (simp add: d put16_def takeWhile_upto [where s = "[]", simplified])
  then have skip: "skip_to_zero ?B 12 = Some 512"
    using t(2) assms(1) by (simp add: skip_to_zero_def)
  have scan: "rd16 ?B 519 = None"
    using assms(1) by (simp add: rd16_def rd_def)
  have "get_dns_response ?B = None"
    using head skip scan by (simp add: get_dns_response_def)
  then show ?thesis
    using assms(5-9) by (simp add: gethostipbyname_r_o_def ask_def query_buffer_fits [OF assms(4)] send_recv_msgo_def buf lb)
qed

lemma crafted_reply_reads_outside_witness:
  "gethostipbyname_r_o (net_reply (put16 m_query_id @ [0x80, 0, 0, 1, 0, 1, 0, 0, 0, 0] @ replicate 500 1)) 32 ''a'' [] = None"
proof -
  let ?d = "(put16 m_query_id @ [0x80, 0, 0, 1, 0, 1, 0, 0, 0, 0]) @ replicate 500 (1 :: byte)"
  have "length ?d = 512" by (simp add: put16_def)
  moreover have "take 12 ?d = put16 m_query_id @ [0x80, 0, 0, 1, 0, 1, 0, 0, 0, 0]" "0 \<notin> set (drop 12 ?d)"
    by (simp_all add: put16_def)
  ultimately show ?thesis
    using crafted_reply_reads_outside [of ?d "''a''" "net_reply ?d" 32 "[]"] by (simp add: net_reply_def)
qed

end
