(* ===== verification/Dns_Client.thy ===== *)
theory Dns_Client
  imports Dns_Message Spider_Conf
begin

text \<open>
  \<open>CDnsClient\<close> (dns_client.h, dns_client.cpp): the cache of site addresses in front of \<open>CUdpDns\<close>.
  The network answers each attempt separately: \<open>net i\<close> is the environment of the attempt whose
  time limit is \<open>i\<close> seconds. Writes past the two 32 byte buffers are \<open>None\<close>.
\<close>

section \<open>State and operations\<close>

type_synonym ip_map = "string \<rightharpoonup> string"

definition no_ip :: string where "no_ip = ''NO_IP''"

definition dns_init :: "ip_map \<Rightarrow> int \<times> ip_map" where
  "dns_init m = (0, Map.empty)"

definition clear_map :: "ip_map \<Rightarrow> ip_map" where
  "clear_map m = Map.empty"

definition put_ip :: "string \<Rightarrow> string \<Rightarrow> ip_map \<Rightarrow> ip_map" where
  "put_ip site ip m = (case m site of None \<Rightarrow> m(site \<mapsto> ip) | Some _ \<Rightarrow> m)"

text \<open>The loop \<open>for (i = 3; i < 6; ++i)\<close>; \<open>ip\<close> is what the buffer holds when an attempt starts.\<close>

fun try_lookups :: "(int \<Rightarrow> dns_env) \<Rightarrow> string \<Rightarrow> int list \<Rightarrow> string \<Rightarrow> string option" where
  "try_lookups net site [] ip = Some ip"
| "try_lookups net site (i # is) ip = do {
     (rc, ip') \<leftarrow> gethostipbyname_r_o (net i) 32 site ip;
     if rc \<ge> 0 then Some ip' else try_lookups net site is no_ip }"

definition query_real_dns :: "CSpiderConf \<Rightarrow> (int \<Rightarrow> dns_env) \<Rightarrow> string \<Rightarrow> string \<Rightarrow> string option" where
  "query_real_dns conf net junk site =
     (if length (cstr (dns_host conf)) < 32 then try_lookups net site [3, 4, 5] junk else None)"

text \<open>\<open>site\<close> is \<open>None\<close> for a NULL pointer; \<open>junk\<close> is what the uninitialised buffer holds.\<close>

definition get_ip :: "CSpiderConf \<Rightarrow> (int \<Rightarrow> dns_env) \<Rightarrow> string \<Rightarrow> string option \<Rightarrow> ip_map
    \<Rightarrow> (string \<times> ip_map) option" where
  "get_ip conf net junk site m =
     (case site of None \<Rightarrow> Some (no_ip, m)
      | Some s \<Rightarrow>
          (case m s of
             None \<Rightarrow> do { ip \<leftarrow> query_real_dns conf net junk s; Some (ip, put_ip s ip m) }
           | Some ip \<Rightarrow> Some (ip, m)))"

fun query_site_ip :: "CSpiderConf \<Rightarrow> (string \<Rightarrow> int \<Rightarrow> dns_env) \<Rightarrow> string \<Rightarrow> string list \<Rightarrow> ip_map
    \<Rightarrow> ip_map option" where
  "query_site_ip conf net junk [] m = Some m"
| "query_site_ip conf net junk (s # ss) m = do {
     ip \<leftarrow> query_real_dns conf (net s) junk s;
     query_site_ip conf net junk ss (put_ip s ip m) }"

lemmas dns_ops [spider_defs] = get_ip_def put_ip_def clear_map_def dns_init_def

section \<open>The contract of a cache\<close>

text \<open>A lookup is answered from the cache when it can be; otherwise the answer is stored, whatever
  it is.\<close>

locale lookup_cache =
  fixes get :: "'e \<Rightarrow> 'k \<Rightarrow> 'c \<Rightarrow> ('v \<times> 'c) option"
    and look :: "'c \<Rightarrow> 'k \<Rightarrow> 'v option"
    and wipe :: "'c \<Rightarrow> 'c"
  assumes hit: "look c k = Some v \<Longrightarrow> get e k c = Some (v, c)"
    and miss: "look c k = None \<Longrightarrow> get e k c = Some (v, c') \<Longrightarrow>
      look c' k' = (if k' = k then Some v else look c k')"
    and wiped: "look (wipe c) k = None"
begin

primrec gets :: "('e \<times> 'k) list \<Rightarrow> 'c \<Rightarrow> 'c option" where
  "gets [] c = Some c"
| "gets (q # qs) c = (case get (fst q) (snd q) c of None \<Rightarrow> None | Some (v, c') \<Rightarrow> gets qs c')"

lemma get_stores: "get e k c = Some (v, c') \<Longrightarrow> look c' k = Some v"
  using miss [of c k e v c' k] by (cases "look c k") (simp_all add: hit)

lemma get_keeps: "get e k c = Some (v, c') \<Longrightarrow> look c k' = Some w \<Longrightarrow> look c' k' = Some w"
  using miss [of c k e v c' k'] by (cases "look c k") (auto simp: hit)

lemma gets_keep: "gets qs c = Some c' \<Longrightarrow> look c k = Some w \<Longrightarrow> look c' k = Some w"
  by (induction qs arbitrary: c) (auto dest: get_keeps split: option.splits)

text \<open>The first answer for a key is every later answer, until the cache is wiped.\<close>

lemma first_answer_stays:
  "get e k c = Some (v, c1) \<Longrightarrow> gets qs c1 = Some c2 \<Longrightarrow> get e' k c2 = Some (v, c2)"
  by (blast intro: hit gets_keep get_stores)

end

lemma get_ip_hit: "m s = Some v \<Longrightarrow> get_ip conf net junk (Some s) m = Some (v, m)"
  by (simp add: get_ip_def)

lemma get_ip_miss:
  "m s = None \<Longrightarrow> get_ip conf net junk (Some s) m = Some (v, m') \<Longrightarrow> m' = m(s \<mapsto> v)"
  by (auto simp: get_ip_def put_ip_def Option.bind_eq_Some_conv)

text \<open>The environment of one call: the network during it and the junk in the stack buffer.\<close>

definition get_site_ip :: "CSpiderConf \<Rightarrow> (int \<Rightarrow> dns_env) \<times> string \<Rightarrow> string \<Rightarrow> ip_map
    \<Rightarrow> (string \<times> ip_map) option" where
  "get_site_ip conf e s m = get_ip conf (fst e) (snd e) (Some s) m"

interpretation dc: lookup_cache "get_site_ip conf" "\<lambda>m. m" clear_map
  for conf
  by unfold_locales (auto simp: get_site_ip_def get_ip_hit clear_map_def dest: get_ip_miss)

section \<open>Attempts\<close>

lemma gethostipbyname_r_o_rc:
  "gethostipbyname_r_o env cap site ip = Some (rc, ip') \<Longrightarrow> rc = 0 \<or> rc = - 1"
  by (auto simp: gethostipbyname_r_o_def ask_def Let_def split: if_splits bind_splits prod.splits)

text \<open>All three attempts failing gives the text \<open>NO_IP\<close>.\<close>

lemma query_all_fail:
  assumes "length (cstr (dns_host conf)) < 32"
    and "\<And>i ip. i \<in> {3, 4, 5} \<Longrightarrow> \<exists>ip'. gethostipbyname_r_o (net i) 32 site ip = Some (- 1, ip')"
  shows "query_real_dns conf net junk site = Some no_ip"
proof -
  have "\<exists>ip'. gethostipbyname_r_o (net 3) 32 site ip = Some (- 1, ip')"
    "\<exists>ip'. gethostipbyname_r_o (net 4) 32 site ip = Some (- 1, ip')"
    "\<exists>ip'. gethostipbyname_r_o (net 5) 32 site ip = Some (- 1, ip')" for ip
    using assms(2) by simp_all
  from this(1) [of junk] this(2) [of no_ip] this(3) [of no_ip] show ?thesis
    using assms(1) by (auto simp: query_real_dns_def)
qed

lemma query_first_success:
  assumes "length (cstr (dns_host conf)) < 32"
    and "gethostipbyname_r_o (net 3) 32 site junk = Some (0, ip)"
  shows "query_real_dns conf net junk site = Some ip"
  using assms by (simp add: query_real_dns_def)

text \<open>A machine on which no socket can be opened, to run lookups on.\<close>

definition no_socket :: "(int \<Rightarrow> dns_env) \<times> string" where
  "no_socket = (\<lambda>_. \<lparr>inet_addr_ok = False, socket_fd = - 1, sendto_rc = - 1, select_rc = 0, datagram = None\<rparr>, [])"

lemma no_socket_no_ip:
  "length (cstr (dns_host conf)) < 32 \<Longrightarrow> m s = None \<Longrightarrow>
   get_site_ip conf no_socket s m = Some (no_ip, m(s \<mapsto> no_ip))"
  by (simp add: get_site_ip_def get_ip_def no_socket_def query_real_dns_def gethostipbyname_r_o_def put_ip_def)

section \<open>Threads around the cache\<close>

text \<open>
  \<open>get_ip\<close> gives the lock of the map up while it asks the network, so other threads run between its two
  critical sections. \<open>asking\<close> holds the sites of the threads in between; \<open>told\<close> is what threads have been
  answered since the last \<open>clear_map\<close>, and whether from the map.
\<close>

record cache_sys =
  ips :: ip_map
  asking :: "string multiset"
  told :: "(bool \<times> string \<times> string) list"

definition cache_start :: cache_sys where
  "cache_start = \<lparr>ips = Map.empty, asking = {#}, told = []\<rparr>"

text \<open>The first critical section: the answer from the map, or nothing.\<close>

definition look_up :: "string \<Rightarrow> ip_map \<Rightarrow> string option" where
  "look_up site m = m site"

inductive cache_step :: "cache_sys \<Rightarrow> cache_sys \<Rightarrow> bool" where
  hit: "look_up site (ips s) = Some ip \<Longrightarrow> cache_step s (s\<lparr>told := (True, site, ip) # told s\<rparr>)"
| miss: "look_up site (ips s) = None \<Longrightarrow> cache_step s (s\<lparr>asking := add_mset site (asking s)\<rparr>)"
| answered: "site \<in># asking s \<Longrightarrow> query_real_dns conf net junk site = Some ip \<Longrightarrow>
    cache_step s (s\<lparr>ips := put_ip site ip (ips s), asking := asking s - {#site#}, told := (False, site, ip) # told s\<rparr>)"
| cleared: "cache_step s (s\<lparr>ips := clear_map (ips s), told := []\<rparr>)"

inductive_cases cache_stepE: "cache_step s t"

inductive cache_reach :: "cache_sys \<Rightarrow> bool" where
  start: "cache_reach cache_start"
| step: "cache_reach s \<Longrightarrow> cache_step s t \<Longrightarrow> cache_reach t"

text \<open>The network's answers for a site since the last clear, the latest first.\<close>

definition network_answers :: "string \<Rightarrow> (bool \<times> string \<times> string) list \<Rightarrow> string list" where
  "network_answers site ts = map (snd \<circ> snd) (filter (\<lambda>a. \<not> fst a \<and> fst (snd a) = site) ts)"

lemma network_answers_simps [simp]:
  "network_answers site [] = []"
  "network_answers site ((b, k, ip) # ts) = (if \<not> b \<and> k = site then [ip] else []) @ network_answers site ts"
  by (simp_all add: network_answers_def)

definition first_stored :: "cache_sys \<Rightarrow> bool" where
  "first_stored s \<longleftrightarrow> (\<forall>site. ips s site =
     (if network_answers site (told s) = [] then None else Some (last (network_answers site (told s)))))"

definition hits_stored :: "cache_sys \<Rightarrow> bool" where
  "hits_stored s \<longleftrightarrow> (\<forall>site ip. (True, site, ip) \<in> set (told s) \<longrightarrow> ips s site = Some ip)"

lemma first_stored_step: "cache_step s t \<Longrightarrow> first_stored s \<Longrightarrow> first_stored t"
  by (erule cache_stepE) (auto simp: first_stored_def put_ip_def clear_map_def split: option.splits)

lemma hits_stored_step: "cache_step s t \<Longrightarrow> hits_stored s \<Longrightarrow> hits_stored t"
  by (erule cache_stepE) (auto simp: hits_stored_def look_up_def put_ip_def clear_map_def split: option.splits)

lemma cache_reach_inv: "cache_reach s \<Longrightarrow> first_stored s \<and> hits_stored s"
proof (induction rule: cache_reach.induct)
  case start
  then show ?case by (simp add: cache_start_def first_stored_def hits_stored_def)
next
  case (step s t)
  then show ?case by (blast intro: first_stored_step hits_stored_step)
qed

text \<open>The two critical sections one after the other are \<open>get_ip\<close>.\<close>

lemma get_ip_sections:
  "get_ip conf net junk (Some site) m =
     (case look_up site m of Some ip \<Rightarrow> Some (ip, m)
      | None \<Rightarrow> map_option (\<lambda>ip. (ip, put_ip site ip m)) (query_real_dns conf net junk site))"
  by (cases "query_real_dns conf net junk site") (auto simp: get_ip_def look_up_def split: option.split)

section \<open>Properties\<close>

text \<open>C35: The first answer for a site, a failure included, is every later answer until the cache is cleared: after
  a lookup whose three attempts all failed, each further lookup of that site is answered \<open>NO_IP\<close> at once,
  whatever else was looked up in between and whatever the network would answer by then.\<close>

theorem failed_lookup_is_cached:
  assumes "length (cstr (dns_host conf)) < 32" "m site = None"
    and "\<And>i ip. i \<in> {3, 4, 5} \<Longrightarrow> \<exists>ip'. gethostipbyname_r_o (fst e i) 32 site ip = Some (- 1, ip')"
    and "get_site_ip conf e site m = Some (ip, m1)" "dc.gets conf others m1 = Some m2"
  shows "ip = no_ip \<and> get_site_ip conf later site m2 = Some (no_ip, m2)"
proof -
  have "query_real_dns conf (fst e) (snd e) site = Some no_ip" by (rule query_all_fail [OF assms(1,3)])
  then have ip: "ip = no_ip" using assms(2,4) by (auto simp: get_site_ip_def get_ip_def)
  from dc.first_answer_stays [OF assms(4,5)] ip show ?thesis by simp
qed

lemma failed_lookup_is_cached_witness:
  "\<exists>m1. get_site_ip conf_zeroed no_socket ''a.b'' Map.empty = Some (no_ip, m1) \<and>
     get_site_ip conf_zeroed (\<lambda>_. net_reply (reply_bytes sample_reply), []) ''a.b'' m1 = Some (no_ip, m1)"
proof -
  have h: "length (cstr (dns_host conf_zeroed)) < 32" by (simp add: conf_zeroed_def)
  obtain m1 where g: "get_site_ip conf_zeroed no_socket ''a.b'' Map.empty = Some (no_ip, m1)"
    using no_socket_no_ip [OF h] by auto
  have fail: "\<exists>ip'. gethostipbyname_r_o (fst no_socket i) 32 ''a.b'' ip = Some (- 1, ip')" for i ip
    by (simp add: no_socket_def gethostipbyname_r_o_def)
  have "dc.gets conf_zeroed [] m1 = Some m1" by simp
  from failed_lookup_is_cached [OF h _ fail g this] g show ?thesis by auto
qed

text \<open>C18: However the threads that resolve sites are interleaved, between two clears every answer from the cache
  for a site is one and the same address, the one that the network gave the first of the threads that
  asked for it; a later answer of the network is used by its own thread only and stored nowhere.\<close>

theorem cache_answers_agree:
  assumes "cache_reach s" "(True, site, ip) \<in> set (told s)"
  shows "network_answers site (told s) \<noteq> [] \<and> ip = last (network_answers site (told s)) \<and> ips s site = Some ip \<and>
    (\<forall>ip'. (True, site, ip') \<in> set (told s) \<longrightarrow> ip' = ip)"
  using cache_reach_inv [OF assms(1)] assms(2) unfolding first_stored_def hits_stored_def by (metis option.distinct(1) option.inject)

lemma cache_answers_agree_witness:
  "\<exists>s. cache_reach s \<and> told s = [(True, ''a.b'', no_ip), (False, ''a.b'', no_ip)] \<and> ips s ''a.b'' = Some no_ip"
proof -
  let ?s1 = "cache_start\<lparr>asking := add_mset ''a.b'' (asking cache_start)\<rparr>"
  let ?s2 = "?s1\<lparr>ips := put_ip ''a.b'' no_ip (ips ?s1), asking := asking ?s1 - {#''a.b''#}, told := (False, ''a.b'', no_ip) # told ?s1\<rparr>"
  let ?s3 = "?s2\<lparr>told := (True, ''a.b'', no_ip) # told ?s2\<rparr>"
  have q: "query_real_dns conf_zeroed (fst no_socket) [] ''a.b'' = Some no_ip"
    by (simp add: query_real_dns_def no_socket_def gethostipbyname_r_o_def conf_zeroed_def)
  have "cache_reach ?s1" by (rule cache_reach.step [OF cache_reach.start cache_step.miss]) (simp add: cache_start_def look_up_def)
  then have "cache_reach ?s2" by (rule cache_reach.step [OF _ cache_step.answered [OF _ q]]) simp
  then have r: "cache_reach ?s3"
    by (rule cache_reach.step [OF _ cache_step.hit]) (simp add: cache_start_def look_up_def put_ip_def)
  have t: "told ?s3 = [(True, ''a.b'', no_ip), (False, ''a.b'', no_ip)]" by (simp add: cache_start_def)
  from cache_answers_agree [OF r, of "''a.b''" no_ip] t have "ips ?s3 ''a.b'' = Some no_ip" by simp
  with r t show ?thesis by blast
qed

end
