(* ===== verification/Url_Output.thy ===== *)
theory Url_Output
  imports Prelude
begin

text \<open>
  \<open>CUrlOutput\<close> (url_output.h, url_output.cpp): the lists of crawled and failed URLs. A line is put
  together in the 5120 byte buffer \<open>m_buf\<close> with \<open>sprintf\<close> at computed offsets and written up to
  the first NUL; the model keeps the buffer, so that an offset which misses leaves a gap, as it
  does in the code. A \<open>sprintf\<close> past the buffer's end is \<open>None\<close>.
\<close>

section \<open>State and operations\<close>

text \<open>\<open>m_fd\<close> is the text of the open file, \<open>None\<close> for -1.\<close>

record CUrlOutput =
  out_fd :: "string option"
  m_buf :: string

definition MBUF_LEN :: nat where "MBUF_LEN = 5120"

definition out_new :: CUrlOutput where
  "out_new = \<lparr>out_fd = None, m_buf = replicate MBUF_LEN NUL\<rparr>"

text \<open>\<open>open\<close> truncates; \<open>opened\<close> and \<open>rc\<close> are the results of \<open>open\<close> and \<open>pthread_mutex_init\<close>.\<close>

definition out_init :: "bool \<Rightarrow> int \<Rightarrow> CUrlOutput \<Rightarrow> int \<times> CUrlOutput" where
  "out_init opened rc o1 =
     (if \<not> opened then (- 1, o1\<lparr>out_fd := None\<rparr>)
      else (if rc \<noteq> 0 then - 1 else 0, o1\<lparr>out_fd := Some []\<rparr>))"

definition out_destroy :: "int \<Rightarrow> CUrlOutput \<Rightarrow> int \<times> CUrlOutput" where
  "out_destroy rc o1 = (if rc \<noteq> 0 then - 1 else 0, o1\<lparr>out_fd := None\<rparr>)"

text \<open>\<open>sprintf(m_buf + off, ...)\<close> of a text without NUL: the text and its NUL.\<close>

definition sprintf_at :: "nat \<Rightarrow> string \<Rightarrow> string \<Rightarrow> string option" where
  "sprintf_at off text buf =
     (if off + length text < length buf
      then Some (take off buf @ text @ NUL # drop (off + length text + 1) buf) else None)"

text \<open>\<open>write(m_fd, m_buf, strlen(m_buf))\<close>, where \<open>ok\<close> is false when \<open>write\<close> returns -1.\<close>

definition out_write :: "bool \<Rightarrow> string \<Rightarrow> CUrlOutput \<Rightarrow> int \<times> CUrlOutput" where
  "out_write ok buf o1 =
     (case out_fd o1 of
        Some text \<Rightarrow> if ok then (0, o1\<lparr>out_fd := Some (text @ cstr buf), m_buf := buf\<rparr>)
                     else (- 1, o1\<lparr>m_buf := buf\<rparr>)
      | None \<Rightarrow> (- 1, o1\<lparr>m_buf := buf\<rparr>))"

text \<open>\<open>time\<close> is the value of \<open>time(NULL)\<close>; \<open>url\<close> is a \<open>std::string\<close>, whose length counts NULs.\<close>

definition append_line :: "nat \<Rightarrow> string \<Rightarrow> string option" where
  "append_line time url =
     Option.bind (sprintf_at 0 (cstr url @ [TAB]) (replicate MBUF_LEN NUL))
       (sprintf_at (length url + 1) (dec_digits time @ [LF]))"

definition out_append :: "bool \<Rightarrow> nat \<Rightarrow> string \<Rightarrow> CUrlOutput \<Rightarrow> (int \<times> CUrlOutput) option" where
  "out_append ok time url o1 = map_option (\<lambda>buf. out_write ok buf o1) (append_line time url)"

text \<open>The third \<open>sprintf\<close> of \<open>append_error\<close> is at \<open>url.length() + 1 + strlen(err_str) + 1\<close>.\<close>

definition error_line :: "nat \<Rightarrow> string \<Rightarrow> string \<Rightarrow> string option" where
  "error_line time url err =
     Option.bind
       (Option.bind (sprintf_at 0 (cstr url @ [TAB]) (replicate MBUF_LEN NUL))
          (sprintf_at (length url + 1) (dec_digits time @ [TAB])))
       (sprintf_at (length url + 1 + length (cstr err) + 1) (cstr err @ [LF]))"

definition out_append_error :: "bool \<Rightarrow> nat \<Rightarrow> string \<Rightarrow> string \<Rightarrow> CUrlOutput
    \<Rightarrow> (int \<times> CUrlOutput) option" where
  "out_append_error ok time url err o1 =
     map_option (\<lambda>buf. out_write ok buf o1) (error_line time url err)"

lemmas out_ops [spider_defs] = out_append_def out_append_error_def out_write_def

section \<open>The contract of a sink of lines\<close>

text \<open>Whatever is formatted is added at the end of the file, or the file stays as it was.\<close>

locale line_sink =
  fixes put :: "bool \<Rightarrow> 'line \<Rightarrow> 's \<Rightarrow> (int \<times> 's) option"
    and text_of :: "'line \<Rightarrow> string option"
    and content :: "'s \<Rightarrow> string option"
  assumes put_ok: "text_of l = Some t \<Longrightarrow> content s = Some c \<Longrightarrow>
      \<exists>s'. put True l s = Some (0, s') \<and> content s' = Some (c @ t)"
    and put_failed: "text_of l = Some t \<Longrightarrow>
      \<exists>s'. put False l s = Some (- 1, s') \<and> content s' = content s"
    and put_closed: "text_of l = Some t \<Longrightarrow> content s = None \<Longrightarrow>
      \<exists>s'. put ok l s = Some (- 1, s') \<and> content s' = None"
    and put_overflow: "text_of l = None \<Longrightarrow> put ok l s = None"
begin

primrec puts :: "'line list \<Rightarrow> 's \<Rightarrow> 's option" where
  "puts [] s = Some s"
| "puts (l # ls) s = (case put True l s of None \<Rightarrow> None | Some (_, s') \<Rightarrow> puts ls s')"

lemma puts_content:
  "content s = Some c \<Longrightarrow> list_all (\<lambda>l. text_of l \<noteq> None) ls \<Longrightarrow>
   \<exists>s'. puts ls s = Some s' \<and> content s' = Some (c @ concat (map (the \<circ> text_of) ls))"
proof (induction ls arbitrary: s c)
  case Nil
  then show ?case by simp
next
  case (Cons l ls)
  then obtain t where t: "text_of l = Some t" by auto
  obtain s1 where s1: "put True l s = Some (0, s1)" "content s1 = Some (c @ t)"
    using put_ok [OF t Cons.prems(1)] by blast
  have "list_all (\<lambda>l. text_of l \<noteq> None) ls" using Cons.prems(2) by simp
  from Cons.IH [OF s1(2) this] show ?case by (auto simp: s1(1) t)
qed

end

interpretation uo: line_sink "\<lambda>ok (time, url). out_append ok time url"
  "\<lambda>(time, url). map_option cstr (append_line time url)" out_fd
  by unfold_locales (auto simp: spider_defs split: option.splits)

interpretation eo: line_sink "\<lambda>ok (time, url, err). out_append_error ok time url err"
  "\<lambda>(time, url, err). map_option cstr (error_line time url err)" out_fd
  by unfold_locales (auto simp: spider_defs split: option.splits)

section \<open>What the lines are\<close>

lemma sprintf_at_0:
  "length text < n \<Longrightarrow> sprintf_at 0 text (replicate n NUL) = Some (text @ replicate (n - length text) NUL)"
  by (cases "n - length text") (auto simp: sprintf_at_def Suc_diff_Suc)

lemma sprintf_at_end:
  "length text < n \<Longrightarrow> sprintf_at (length pre) text (pre @ replicate n NUL) =
     Some (pre @ text @ replicate (n - length text) NUL)"
  by (cases "n - length text") (auto simp: sprintf_at_def Suc_diff_Suc)

text \<open>A crawled URL is written as the URL, a tab, the time and a line feed, while it fits.\<close>

lemma append_line_text:
  assumes "NUL \<notin> set url" "length url + length (dec_digits time) + 3 \<le> MBUF_LEN"
  shows "append_line time url =
    Some (url @ TAB # dec_digits time @ LF # replicate (MBUF_LEN - (length url + length (dec_digits time) + 2)) NUL)"
proof -
  have 1: "sprintf_at 0 (url @ [TAB]) (replicate MBUF_LEN NUL)
      = Some ((url @ [TAB]) @ replicate (MBUF_LEN - Suc (length url)) NUL)"
    using assms(2) by (subst sprintf_at_0) simp_all
  have "sprintf_at (length (url @ [TAB])) (dec_digits time @ [LF])
      ((url @ [TAB]) @ replicate (MBUF_LEN - Suc (length url)) NUL)
      = Some ((url @ [TAB]) @ (dec_digits time @ [LF]) @
          replicate (MBUF_LEN - Suc (length url) - length (dec_digits time @ [LF])) NUL)"
    using assms(2) by (subst sprintf_at_end) simp_all
  with 1 show ?thesis using assms(1) by (simp add: append_line_def)
qed

text \<open>Too long a URL runs off the buffer.\<close>

lemma append_line_overflow:
  assumes "NUL \<notin> set url" "MBUF_LEN \<le> length url + length (dec_digits time) + 2"
  shows "append_line time url = None"
  using assms by (auto simp: append_line_def sprintf_at_def split: bind_splits)

text \<open>The buffer after the first two \<open>sprintf\<close> of \<open>append_error\<close>.\<close>

lemma error_line_prefix:
  assumes "NUL \<notin> set url" "length url + length (dec_digits time) + 3 \<le> MBUF_LEN"
  shows "Option.bind (sprintf_at 0 (cstr url @ [TAB]) (replicate MBUF_LEN NUL))
      (sprintf_at (length url + 1) (dec_digits time @ [TAB])) =
    Some ((url @ TAB # dec_digits time @ [TAB]) @
       replicate (MBUF_LEN - (length url + length (dec_digits time) + 2)) NUL)"
proof -
  have 1: "sprintf_at 0 (url @ [TAB]) (replicate MBUF_LEN NUL)
      = Some ((url @ [TAB]) @ replicate (MBUF_LEN - Suc (length url)) NUL)"
    using assms(2) by (subst sprintf_at_0) simp_all
  have "sprintf_at (length (url @ [TAB])) (dec_digits time @ [TAB])
      ((url @ [TAB]) @ replicate (MBUF_LEN - Suc (length url)) NUL)
      = Some ((url @ [TAB]) @ (dec_digits time @ [TAB]) @
          replicate (MBUF_LEN - Suc (length url) - length (dec_digits time @ [TAB])) NUL)"
    using assms(2) by (subst sprintf_at_end) simp_all
  with 1 show ?thesis using assms(1) by simp
qed

lemma cstr_written:
  "NUL \<notin> set t \<Longrightarrow> cstr (pre @ t @ NUL # post) = (if NUL \<in> set pre then cstr pre else pre @ t)"
proof (induction pre)
  case (Cons c pre)
  then show ?case by auto
qed simp

lemma sprintf_at_cstr:
  "NUL \<notin> set text \<Longrightarrow> off + length text < length buf \<Longrightarrow>
   map_option cstr (sprintf_at off text buf) =
     Some (if NUL \<in> set (take off buf) then cstr (take off buf) else take off buf @ text)"
  by (simp add: sprintf_at_def cstr_written)

lemma error_line_text:
  assumes "NUL \<notin> set url" "NUL \<notin> set err"
    and "length url + max (length (dec_digits time)) (2 * length err) + 4 \<le> MBUF_LEN"
  shows "map_option cstr (error_line time url err) = Some
    (if length err = length (dec_digits time) then url @ TAB # dec_digits time @ TAB # err @ [LF]
     else if length err < length (dec_digits time)
     then url @ TAB # take (length err + 1) (dec_digits time) @ err @ [LF]
     else url @ TAB # dec_digits time @ [TAB])"
proof -
  let ?d = "dec_digits time" and ?U = "length url" and ?e = "length err"
  let ?line = "url @ TAB # ?d @ [TAB]"
  let ?buf = "?line @ replicate (MBUF_LEN - (?U + length ?d + 2)) NUL"
  have b: "?U + length ?d + 3 \<le> MBUF_LEN" using assms(3) by simp
  have el: "error_line time url err = sprintf_at (?U + 1 + ?e + 1) (err @ [LF]) ?buf"
    unfolding error_line_def error_line_prefix [OF assms(1) b] using assms(2) by simp
  have fits: "?U + 1 + ?e + 1 + length (err @ [LF]) < length ?buf" using assms(3) by simp
  have sp: "map_option cstr (error_line time url err) =
      Some (if NUL \<in> set (take (?U + 1 + ?e + 1) ?buf) then cstr (take (?U + 1 + ?e + 1) ?buf)
            else take (?U + 1 + ?e + 1) ?buf @ err @ [LF])"
    unfolding el using fits assms(2) by (intro sprintf_at_cstr) auto
  show ?thesis
  proof (cases "?e < length ?d")
    case True
    then have "take (?U + 1 + ?e + 1) ?buf = url @ TAB # take (?e + 1) ?d" by simp
    moreover have "NUL \<notin> set (take (?e + 1) ?d)" by (meson NUL_notin_dec_digits in_set_takeD)
    ultimately show ?thesis unfolding sp using True assms(1) by simp
  next
    case False
    then have "length ?d \<le> ?e" by simp
    then have tk: "take (?U + 1 + ?e + 1) ?buf = ?line @ replicate (?e - length ?d) NUL"
      using assms(3) by (simp add: Suc_diff_le min_def)
    show ?thesis
    proof (cases "?e = length ?d")
      case True
      then show ?thesis unfolding sp tk using assms(1) by simp
    next
      case neq: False
      with False obtain k where k: "?e - length ?d = Suc k" by (metis Suc_diff_Suc linorder_neqE_nat)
      show ?thesis unfolding sp tk k using assms(1) neq False by (simp add: cstr_append)
    qed
  qed
qed

section \<open>Properties\<close>

text \<open>C36: What a failed URL leaves in the fail list depends on the length of the error text against the number
  of digits of the time: only for equal lengths is it the intended line (URL, time, error); a shorter
  error overwrites the end of the time, and a longer one is lost together with the line feed, behind a
  NUL that ends the text.\<close>

theorem append_error_text:
  assumes "NUL \<notin> set url" "NUL \<notin> set err" "out_fd o1 = Some c"
    and "length url + max (length (dec_digits time)) (2 * length err) + 4 \<le> MBUF_LEN"
  shows "\<exists>o2. out_append_error True time url err o1 = Some (0, o2) \<and> out_fd o2 = Some (c @
    (if length err = length (dec_digits time) then url @ TAB # dec_digits time @ TAB # err @ [LF]
     else if length err < length (dec_digits time)
     then url @ TAB # take (length err + 1) (dec_digits time) @ err @ [LF]
     else url @ TAB # dec_digits time @ [TAB]))"
  using error_line_text [OF assms(1,2,4)] assms(3) by (auto simp: spider_defs)

lemma append_error_text_witness:
  "\<exists>o2. out_append_error True 13570 ''http://a.b/'' ''DNS'' (out_new\<lparr>out_fd := Some []\<rparr>) = Some (0, o2) \<and>
     out_fd o2 = Some (''http://a.b/'' @ TAB # ''1357'' @ ''DNS'' @ [LF])"
proof -
  have d: "dec_digits 13570 = ''13570''" by (simp add: dec_digits.simps digit_char_def char_of_def bit_0)
  show ?thesis
    using append_error_text [of "''http://a.b/''" "''DNS''" "out_new\<lparr>out_fd := Some []\<rparr>" "[]" 13570]
    by (simp add: d MBUF_LEN_def)
qed

section \<open>append_error without its mutex\<close>

text \<open>\<open>append_error\<close> formats into the shared buffer before it takes the mutex: two steps of a thread,
  between which other threads can run.\<close>

definition error_format :: "nat \<times> string \<times> string \<Rightarrow> CUrlOutput \<Rightarrow> CUrlOutput option" where
  "error_format l o1 =
     (case l of (time, url, err) \<Rightarrow> map_option (\<lambda>buf. o1\<lparr>m_buf := buf\<rparr>) (error_line time url err))"

definition error_write :: "bool \<Rightarrow> CUrlOutput \<Rightarrow> int \<times> CUrlOutput" where
  "error_write ok o1 = out_write ok (m_buf o1) o1"

lemma append_error_steps:
  "out_append_error ok time url err o1 = map_option (error_write ok) (error_format (time, url, err) o1)"
  by (cases "error_line time url err"; cases "out_fd o1")
    (simp_all add: error_format_def error_write_def spider_defs)

datatype error_event = Formats "nat \<times> string \<times> string" | Writes

fun error_run :: "error_event list \<Rightarrow> CUrlOutput \<Rightarrow> CUrlOutput option" where
  "error_run [] o1 = Some o1"
| "error_run (Formats l # es) o1 = (case error_format l o1 of None \<Rightarrow> None | Some o2 \<Rightarrow> error_run es o2)"
| "error_run (Writes # es) o1 = error_run es (snd (error_write True o1))"

definition error_text :: "nat \<times> string \<times> string \<Rightarrow> string" where
  "error_text l = (case l of (time, url, err) \<Rightarrow> cstr (the (error_line time url err)))"

definition error_fits :: "nat \<times> string \<times> string \<Rightarrow> bool" where
  "error_fits l = (case l of (time, url, err) \<Rightarrow> error_line time url err \<noteq> None)"

lemma error_format_fits:
  "error_fits l \<Longrightarrow> \<exists>buf. error_format l o1 = Some (o1\<lparr>m_buf := buf\<rparr>) \<and> cstr buf = error_text l"
  by (auto simp: error_format_def error_fits_def error_text_def split: prod.splits)

lemma error_run_append:
  "error_run (es @ fs) o1 = Option.bind (error_run es o1) (error_run fs)"
  by (induction es o1 rule: error_run.induct) (auto split: option.splits)

lemma error_run_formats:
  "list_all error_fits ls \<Longrightarrow> ls \<noteq> [] \<Longrightarrow>
   \<exists>buf. error_run (map Formats ls) o1 = Some (o1\<lparr>m_buf := buf\<rparr>) \<and> cstr buf = error_text (last ls)"
proof (induction ls arbitrary: o1)
  case (Cons l ls)
  obtain buf where "error_format l o1 = Some (o1\<lparr>m_buf := buf\<rparr>)" "cstr buf = error_text l"
    using error_format_fits [of l o1] Cons.prems(1) by auto
  with Cons.IH [of "o1\<lparr>m_buf := buf\<rparr>"] Cons.prems(1) show ?case by (cases "ls = []") auto
qed simp

lemma error_run_writes:
  "out_fd o1 = Some c \<Longrightarrow> \<exists>o2. error_run (replicate n Writes) o1 = Some o2 \<and>
     out_fd o2 = Some (c @ concat (replicate n (cstr (m_buf o1))))"
proof (induction n arbitrary: o1 c)
  case (Suc n)
  let ?o2 = "o1\<lparr>out_fd := Some (c @ cstr (m_buf o1))\<rparr>"
  show ?case
    using Suc.IH [of ?o2 "c @ cstr (m_buf o1)"] Suc.prems by (simp add: error_write_def out_write_def)
qed simp

lemma error_run_sequential:
  "list_all error_fits ls \<Longrightarrow> out_fd o1 = Some c \<Longrightarrow>
   \<exists>o2. error_run (concat (map (\<lambda>l. [Formats l, Writes]) ls)) o1 = Some o2 \<and>
     out_fd o2 = Some (c @ concat (map error_text ls))"
proof (induction ls arbitrary: o1 c)
  case (Cons l ls)
  obtain buf where f: "error_format l o1 = Some (o1\<lparr>m_buf := buf\<rparr>)" "cstr buf = error_text l"
    using error_format_fits [of l o1] Cons.prems(1) by auto
  obtain o2 where o2: "snd (error_write True (o1\<lparr>m_buf := buf\<rparr>)) = o2" "out_fd o2 = Some (c @ error_text l)"
    using f(2) Cons.prems(2) by (simp add: error_write_def out_write_def)
  with Cons.IH [OF _ o2(2)] Cons.prems(1) f(1) show ?case by simp
qed simp

text \<open>C27: Failed URLs can be lost: \<open>append_error\<close> formats its line before it takes the mutex, so when some
  threads have all formatted and then all write, the line of the last one is in the file once for
  each of them and the lines of the others are not, where the same calls one after the other write
  every line.\<close>

theorem append_error_race:
  assumes "list_all error_fits ls" "ls \<noteq> []" "out_fd o1 = Some c"
  shows "(\<exists>o2. error_run (map Formats ls @ replicate (length ls) Writes) o1 = Some o2 \<and>
      out_fd o2 = Some (c @ concat (replicate (length ls) (error_text (last ls))))) \<and>
    (\<exists>o2. error_run (concat (map (\<lambda>l. [Formats l, Writes]) ls)) o1 = Some o2 \<and>
      out_fd o2 = Some (c @ concat (map error_text ls)))"
proof -
  obtain buf where f: "error_run (map Formats ls) o1 = Some (o1\<lparr>m_buf := buf\<rparr>)" "cstr buf = error_text (last ls)"
    using error_run_formats [OF assms(1,2)] by blast
  have "out_fd (o1\<lparr>m_buf := buf\<rparr>) = Some c" using assms(3) by simp
  from error_run_writes [OF this, of "length ls"] f error_run_sequential [OF assms(1,3)]
  show ?thesis by (simp add: error_run_append)
qed

lemma append_error_race_witness:
  "\<exists>o2. error_run [Formats (7, ''http://a.b/'', ''X''), Formats (8, ''http://c.d/'', ''X''), Writes, Writes]
       (out_new\<lparr>out_fd := Some []\<rparr>) = Some o2 \<and>
     out_fd o2 = Some (''http://c.d/'' @ TAB # ''8'' @ TAB # ''X'' @ LF # ''http://c.d/'' @ TAB # ''8'' @ TAB # ''X'' @ [LF])"
proof -
  have d: "dec_digits 7 = ''7''" "dec_digits 8 = ''8''"
    by (simp_all add: dec_digits.simps digit_char_def char_of_def bit_0)
  have t: "map_option cstr (error_line 7 ''http://a.b/'' ''X'') = Some (''http://a.b/'' @ TAB # ''7'' @ TAB # ''X'' @ [LF])"
    "map_option cstr (error_line 8 ''http://c.d/'' ''X'') = Some (''http://c.d/'' @ TAB # ''8'' @ TAB # ''X'' @ [LF])"
    by (subst error_line_text; simp add: d MBUF_LEN_def)+
  have fits: "list_all error_fits [(7, ''http://a.b/'', ''X''), (8, ''http://c.d/'', ''X'')]"
    and txt8: "error_text (8, ''http://c.d/'', ''X'') = ''http://c.d/'' @ TAB # ''8'' @ TAB # ''X'' @ [LF]"
    using t by (auto simp: error_fits_def error_text_def)
  show ?thesis
    using append_error_race [OF fits, of "out_new\<lparr>out_fd := Some []\<rparr>" "[]"]
    by (simp add: txt8 numeral_2_eq_2)
qed

end
