(* ===== verification/Page_Output.thy ===== *)
theory Page_Output
  imports Spider_Conf
begin

text \<open>
  \<open>CPageOutput\<close> (page_output.h, page_output.cpp), which appends crawled pages to a file named
  after the day and a slot of minutes, and \<open>CSpider::write_page_list\<close> (spider.cpp), which formats
  the line. The file system is the directories and files the code creates; whether \<open>mkdir\<close>,
  \<open>open\<close> and \<open>write\<close> succeed is the environment's. A division by zero and a write past the path
  or the line buffer are \<open>None\<close>.
\<close>

section \<open>State and operations\<close>

record CPageOutput =
  pg_fd :: "string option"
  m_cur_day :: int
  m_cur_min :: int

record page_fs =
  pg_dirs :: "string set"
  pg_files :: "string \<rightharpoonup> string"

record page_env =
  mkdir_ok :: bool
  open_ok :: bool
  write_ok :: bool

text \<open>The fields of \<open>struct tm\<close> that the code reads.\<close>

record tm =
  tm_year :: int
  tm_mon :: int
  tm_mday :: int
  tm_hour :: int
  tm_min :: int

definition page_init :: "int \<Rightarrow> CPageOutput \<Rightarrow> int \<times> CPageOutput" where
  "page_init rc p = (if rc \<noteq> 0 then - 1 else 0, p\<lparr>pg_fd := None, m_cur_day := - 1, m_cur_min := - 1\<rparr>)"

definition page_destroy :: "int \<Rightarrow> CPageOutput \<Rightarrow> int \<times> CPageOutput" where
  "page_destroy rc p = (if rc \<noteq> 0 then - 1 else 0, p\<lparr>pg_fd := None\<rparr>)"

text \<open>\<open>%02d\<close>.\<close>

definition dec2 :: "int \<Rightarrow> string" where
  "dec2 n = (if 0 \<le> n \<and> n < 10 then CHR ''0'' # dec_int n else dec_int n)"

definition day_dir :: "CSpiderConf \<Rightarrow> tm \<Rightarrow> string" where
  "day_dir conf t = cstr (page_dir conf) @ ''/'' @
     dec_int (tm_year t + 1900) @ dec2 (tm_mon t + 1) @ dec2 (tm_mday t)"

text \<open>The two paths of the code: the day in the second is \<open>m_cur_day\<close>, the minute the slot's.\<close>

definition page_path :: "CSpiderConf \<Rightarrow> tm \<Rightarrow> int \<Rightarrow> int \<Rightarrow> string" where
  "page_path conf t day slot =
     (let date = dec_int (tm_year t + 1900) @ dec2 (tm_mon t + 1) @ dec2 day
      in cstr (page_dir conf) @ ''/'' @ date @ ''/page.'' @ cstr (spider_name conf) @ ''.'' @ date @
         dec2 (tm_hour t) @ dec2 (slot * page_name_change_interval conf))"

definition PATH_BUF :: nat where "PATH_BUF = 4096"

text \<open>The three parts of \<open>append\<close>; each returns whether the function goes on.\<close>

definition enter_day :: "page_env \<Rightarrow> CSpiderConf \<Rightarrow> tm \<Rightarrow> CPageOutput \<Rightarrow> page_fs
    \<Rightarrow> (bool \<times> CPageOutput \<times> page_fs) option" where
  "enter_day env conf t p fs =
     (if tm_mday t \<noteq> m_cur_day p then
        (let dir = day_dir conf t; p' = p\<lparr>m_cur_day := tm_mday t\<rparr>
         in if PATH_BUF \<le> length dir then None
            else if dir \<in> pg_dirs fs then Some (True, p', fs)
            else if mkdir_ok env then Some (True, p', fs\<lparr>pg_dirs := insert dir (pg_dirs fs)\<rparr>)
            else Some (False, p', fs))
      else Some (True, p, fs))"

definition enter_slot :: "page_env \<Rightarrow> CSpiderConf \<Rightarrow> tm \<Rightarrow> int \<Rightarrow> CPageOutput \<Rightarrow> page_fs
    \<Rightarrow> (bool \<times> CPageOutput \<times> page_fs) option" where
  "enter_slot env conf t slot p fs =
     (if slot \<noteq> m_cur_min p then
        (let path = page_path conf t (m_cur_day p) slot
         in if PATH_BUF \<le> length path then None
            else if open_ok env
            then Some (True, p\<lparr>pg_fd := Some path, m_cur_min := slot\<rparr>,
                   fs\<lparr>pg_files := (pg_files fs)(path \<mapsto> (case pg_files fs path of None \<Rightarrow> [] | Some c \<Rightarrow> c))\<rparr>)
            else Some (False, p\<lparr>pg_fd := None\<rparr>, fs))
      else Some (True, p, fs))"

definition write_bytes :: "page_env \<Rightarrow> string \<Rightarrow> CPageOutput \<Rightarrow> page_fs \<Rightarrow> bool \<times> page_fs" where
  "write_bytes env page p fs =
     (case pg_fd p of None \<Rightarrow> (False, fs)
      | Some path \<Rightarrow>
          if write_ok env
          then (True, fs\<lparr>pg_files := (pg_files fs)(path \<mapsto>
                  (case pg_files fs path of None \<Rightarrow> [] | Some c \<Rightarrow> c) @ page)\<rparr>)
          else (False, fs))"

text \<open>\<open>need_write\<close> false is the call of the crawling threads that only makes the file exist.\<close>

definition page_append :: "page_env \<Rightarrow> CSpiderConf \<Rightarrow> tm \<Rightarrow> string \<Rightarrow> bool \<Rightarrow> CPageOutput \<Rightarrow> page_fs
    \<Rightarrow> (int \<times> CPageOutput \<times> page_fs) option" where
  "page_append env conf t page need_write p fs =
     (if page_name_change_interval conf = 0 then None
      else
        (let slot = tm_min t sdiv page_name_change_interval conf
         in case enter_day env conf t p fs of None \<Rightarrow> None
            | Some (False, p1, fs1) \<Rightarrow> Some (- 1, p1, fs1)
            | Some (True, p1, fs1) \<Rightarrow>
                (case enter_slot env conf t slot p1 fs1 of None \<Rightarrow> None
                 | Some (False, p2, fs2) \<Rightarrow> Some (- 1, p2, fs2)
                 | Some (True, p2, fs2) \<Rightarrow>
                     if need_write
                     then (case write_bytes env page p2 fs2 of
                             (True, fs3) \<Rightarrow> Some (0, p2, fs3) | (False, fs3) \<Rightarrow> Some (- 1, p2, fs3))
                     else Some (0, p2, fs2))))"

lemmas page_ops [spider_defs] = page_append_def enter_day_def enter_slot_def write_bytes_def

section \<open>The line of a page\<close>

text \<open>\<open>sign\<close> is \<open>CSign::Generate\<close>, \<open>b64\<close> is \<open>base64_encode\<close>, \<open>time\<close> is \<open>time(NULL)\<close>.\<close>

definition page_fields :: "(string \<Rightarrow> 32 word \<times> 32 word) \<Rightarrow> (string \<Rightarrow> string) \<Rightarrow> nat \<Rightarrow> string \<Rightarrow> string
    \<Rightarrow> string \<Rightarrow> int \<Rightarrow> string \<Rightarrow> string list" where
  "page_fields sign b64 time url domain site flag content =
     (let body = b64 content; us = sign url; ps = sign body
      in [dec_digits time, cstr url, cstr domain, cstr site,
          dec_digits (unat (fst us)), dec_digits (unat (snd us)),
          dec_digits (unat (fst ps)), dec_digits (unat (snd ps)), dec_int flag, cstr body])"

fun join_tabs :: "string list \<Rightarrow> string" where
  "join_tabs [] = []"
| "join_tabs [f] = f"
| "join_tabs (f # fs) = f @ TAB # join_tabs fs"

definition page_line :: "(string \<Rightarrow> 32 word \<times> 32 word) \<Rightarrow> (string \<Rightarrow> string) \<Rightarrow> nat \<Rightarrow> string \<Rightarrow> string
    \<Rightarrow> string \<Rightarrow> int \<Rightarrow> string \<Rightarrow> string" where
  "page_line sign b64 time url domain site flag content =
     join_tabs (page_fields sign b64 time url domain site flag content) @ [LF]"

text \<open>The length the code adds up: the \<open>std::string\<close>s by their \<open>length()\<close>, ten tabs, a newline.\<close>

definition page_total_len :: "(string \<Rightarrow> 32 word \<times> 32 word) \<Rightarrow> (string \<Rightarrow> string) \<Rightarrow> nat \<Rightarrow> string \<Rightarrow> string
    \<Rightarrow> string \<Rightarrow> int \<Rightarrow> string \<Rightarrow> nat" where
  "page_total_len sign b64 time url domain site flag content =
     (let body = b64 content; us = sign url; ps = sign body
      in length (dec_digits time) + length url + length domain + length site
         + length (dec_digits (unat (fst us))) + length (dec_digits (unat (snd us)))
         + length (dec_digits (unat (fst ps))) + length (dec_digits (unat (snd ps)))
         + length (dec_int flag) + length body + 10 + 1)"

text \<open>\<open>None\<close> where \<open>flag_buf[4]\<close> or the line buffer of \<open>buf_len\<close> bytes is overrun.\<close>

definition write_page_list :: "page_env \<Rightarrow> CSpiderConf \<Rightarrow> tm \<Rightarrow> (string \<Rightarrow> 32 word \<times> 32 word) \<Rightarrow> (string \<Rightarrow> string)
    \<Rightarrow> nat \<Rightarrow> string \<Rightarrow> string \<Rightarrow> string \<Rightarrow> int \<Rightarrow> string \<Rightarrow> nat \<Rightarrow> CPageOutput \<Rightarrow> page_fs
    \<Rightarrow> (int \<times> CPageOutput \<times> page_fs) option" where
  "write_page_list env conf t sign b64 time url domain site flag content buf_len p fs =
     (if 4 \<le> length (dec_int flag) then None
      else if buf_len \<le> page_total_len sign b64 time url domain site flag content then Some (- 1, p, fs)
      else
        (let line = page_line sign b64 time url domain site flag content
         in if buf_len < length line + 1 then None
            else (case page_append env conf t line True p fs of None \<Rightarrow> None
                  | Some (rc, p', fs') \<Rightarrow> Some (if rc \<noteq> 0 then - 1 else 0, p', fs'))))"

section \<open>Facts\<close>

lemma length_join_tabs:
  "fs \<noteq> [] \<Longrightarrow> length (join_tabs fs) + 1 = sum_list (map length fs) + length fs"
  by (induction fs rule: join_tabs.induct) auto

text \<open>What the check measures covers the line and its terminating NUL.\<close>

lemma page_line_fits:
  "length (page_line sign b64 time url domain site flag content) + 1
    \<le> page_total_len sign b64 time url domain site flag content"
proof -
  let ?fs = "page_fields sign b64 time url domain site flag content"
  have "length (join_tabs ?fs) + 1 = sum_list (map length ?fs) + length ?fs"
    by (rule length_join_tabs) (simp add: page_fields_def Let_def)
  then show ?thesis
    using length_cstr_le [of url] length_cstr_le [of domain] length_cstr_le [of site]
      length_cstr_le [of "b64 content"]
    by (simp add: page_line_def page_total_len_def page_fields_def Let_def)
qed

text \<open>Reading a line back: the fields between the tabs, without the line feed.\<close>

fun split_tabs :: "string \<Rightarrow> string list" where
  "split_tabs [] = [[]]"
| "split_tabs (c # s) =
     (if c = TAB then [] # split_tabs s
      else (case split_tabs s of [] \<Rightarrow> [[c]] | f # fs \<Rightarrow> (c # f) # fs))"

lemma split_tabs_notin: "TAB \<notin> set f \<Longrightarrow> split_tabs f = [f]"
  by (induction f) auto

lemma split_tabs_field: "TAB \<notin> set f \<Longrightarrow> split_tabs (f @ TAB # s) = f # split_tabs s"
  by (induction f) auto

lemma split_join_tabs: "fs \<noteq> [] \<Longrightarrow> list_all (\<lambda>f. TAB \<notin> set f) fs \<Longrightarrow> split_tabs (join_tabs fs) = fs"
  by (induction fs rule: join_tabs.induct) (auto simp: split_tabs_notin split_tabs_field)

text \<open>A new slot opens the file of the moment and writes there.\<close>

lemma page_append_new_slot:
  assumes "page_name_change_interval conf \<noteq> 0"
    and "tm_min t sdiv page_name_change_interval conf \<noteq> m_cur_min p"
    and "mkdir_ok env" "open_ok env" "write_ok env"
    and "length (day_dir conf t) < PATH_BUF"
    and "length (page_path conf t (tm_mday t) (tm_min t sdiv page_name_change_interval conf)) < PATH_BUF"
  shows "\<exists>p' fs'. page_append env conf t page True p fs = Some (0, p', fs') \<and>
    (let path = page_path conf t (tm_mday t) (tm_min t sdiv page_name_change_interval conf)
     in pg_fd p' = Some path \<and>
        pg_files fs' = (pg_files fs)(path \<mapsto> (case pg_files fs path of None \<Rightarrow> [] | Some c \<Rightarrow> c) @ page))"
  using assms by (auto simp: spider_defs Let_def split: option.splits)

text \<open>In the slot of the open file nothing is opened, whatever the hour and the day.\<close>

lemma page_append_same_slot:
  assumes "page_name_change_interval conf \<noteq> 0"
    and "tm_min t sdiv page_name_change_interval conf = m_cur_min p"
    and "pg_fd p = Some path" "pg_files fs path = Some c"
    and "mkdir_ok env" "write_ok env" "length (day_dir conf t) < PATH_BUF"
  shows "\<exists>p' fs'. page_append env conf t page True p fs = Some (0, p', fs') \<and>
    pg_fd p' = Some path \<and> pg_files fs' = (pg_files fs)(path \<mapsto> c @ page)"
  using assms by (auto simp: spider_defs Let_def)

text \<open>What \<open>append\<close> does to the files when its paths fit.\<close>

lemma page_append_result:
  assumes "page_name_change_interval conf \<noteq> 0" "length (day_dir conf t) < PATH_BUF"
    and "length (page_path conf t (tm_mday t) (tm_min t sdiv page_name_change_interval conf)) < PATH_BUF"
  obtains rc p' fs' where "page_append env conf t page True p fs = Some (rc, p', fs')"
    and "rc = 0 \<Longrightarrow> \<exists>path. pg_fd p' = Some path \<and>
      pg_files fs' = (pg_files fs)(path \<mapsto> (case pg_files fs path of None \<Rightarrow> [] | Some c \<Rightarrow> c) @ page)"
    and "\<And>path c. rc \<noteq> 0 \<Longrightarrow> pg_files fs path = Some c \<Longrightarrow> pg_files fs' path = Some c"
    and "mkdir_ok env \<Longrightarrow> open_ok env \<Longrightarrow> write_ok env \<Longrightarrow>
      pg_fd p \<noteq> None \<or> tm_min t sdiv page_name_change_interval conf \<noteq> m_cur_min p \<Longrightarrow> rc = 0"
proof -
  let ?slot = "tm_min t sdiv page_name_change_interval conf"
  have "\<exists>on p1 fs1. enter_day env conf t p fs = Some (on, p1, fs1) \<and> pg_files fs1 = pg_files fs \<and>
      m_cur_day p1 = tm_mday t \<and> pg_fd p1 = pg_fd p \<and> m_cur_min p1 = m_cur_min p \<and> (mkdir_ok env \<longrightarrow> on)"
    using assms(2) by (cases "tm_mday t = m_cur_day p"; cases "day_dir conf t \<in> pg_dirs fs"; cases "mkdir_ok env")
      (simp_all add: enter_day_def Let_def ex_bool_eq)
  then obtain on p1 fs1 where day: "enter_day env conf t p fs = Some (on, p1, fs1)" "pg_files fs1 = pg_files fs"
      "m_cur_day p1 = tm_mday t" "pg_fd p1 = pg_fd p" "m_cur_min p1 = m_cur_min p" "mkdir_ok env \<Longrightarrow> on"
    by blast
  have "\<exists>on2 p2 fs2. enter_slot env conf t ?slot p1 fs1 = Some (on2, p2, fs2) \<and>
      (pg_files fs2 = pg_files fs1 \<or> (\<exists>path. pg_fd p2 = Some path \<and>
         pg_files fs2 = (pg_files fs1)(path \<mapsto> (case pg_files fs1 path of None \<Rightarrow> [] | Some c \<Rightarrow> c)))) \<and>
      (open_ok env \<longrightarrow> on2) \<and> (open_ok env \<longrightarrow> pg_fd p1 \<noteq> None \<or> ?slot \<noteq> m_cur_min p1 \<longrightarrow> pg_fd p2 \<noteq> None)"
    using assms(3) day(3) by (cases "?slot = m_cur_min p1"; cases "open_ok env") (simp_all add: enter_slot_def Let_def ex_bool_eq)
  then obtain on2 p2 fs2 where slot: "enter_slot env conf t ?slot p1 fs1 = Some (on2, p2, fs2)"
      "pg_files fs2 = pg_files fs1 \<or> (\<exists>path. pg_fd p2 = Some path \<and>
         pg_files fs2 = (pg_files fs1)(path \<mapsto> (case pg_files fs1 path of None \<Rightarrow> [] | Some c \<Rightarrow> c)))"
      "open_ok env \<Longrightarrow> on2" "open_ok env \<Longrightarrow> pg_fd p1 \<noteq> None \<or> ?slot \<noteq> m_cur_min p1 \<Longrightarrow> pg_fd p2 \<noteq> None"
    by blast
  obtain on3 fs3 where bytes: "write_bytes env page p2 fs2 = (on3, fs3)" by fastforce
  have ok: "\<exists>path. pg_fd p2 = Some path \<and>
      pg_files fs3 = (pg_files fs)(path \<mapsto> (case pg_files fs path of None \<Rightarrow> [] | Some c \<Rightarrow> c) @ page)" if on3
    using that slot(2) bytes day(2) by (auto simp: write_bytes_def split: option.splits if_splits)
  have keep: "pg_files fs2 path = Some c" if "pg_files fs path = Some c" for path c
    using that slot(2) day(2) by auto
  have same: "\<not> on3 \<Longrightarrow> fs3 = fs2" using bytes by (auto simp: write_bytes_def split: option.splits if_splits)
  have on3: "write_ok env \<Longrightarrow> pg_fd p2 \<noteq> None \<Longrightarrow> on3" using bytes by (auto simp: write_bytes_def)
  show thesis
  proof (cases "on \<and> on2")
    case True
    then have r: "page_append env conf t page True p fs = Some (if on3 then 0 else - 1, p2, fs3)"
      using slot(1) day(1) bytes assms(1) by (simp add: page_append_def Let_def)
    show thesis
    proof (rule that [OF r])
      show "\<exists>path. pg_fd p2 = Some path \<and>
          pg_files fs3 = (pg_files fs)(path \<mapsto> (case pg_files fs path of None \<Rightarrow> [] | Some c \<Rightarrow> c) @ page)"
        if "(if on3 then 0 else - 1 :: int) = 0" using that ok by (simp split: if_splits)
      show "pg_files fs3 path = Some c" if "(if on3 then 0 else - 1 :: int) \<noteq> 0" "pg_files fs path = Some c" for path c
        using that keep same by (simp split: if_splits)
      show "(if on3 then 0 else - 1 :: int) = 0"
        if "open_ok env" "write_ok env" "pg_fd p \<noteq> None \<or> ?slot \<noteq> m_cur_min p"
        using that on3 slot(4) day(4,5) by simp
    qed
  next
    case False
    then obtain p3 fs' where r: "page_append env conf t page True p fs = Some (- 1, p3, fs')"
        and f: "fs' = fs1 \<or> fs' = fs2"
      using slot(1) day(1) assms(1) by (cases on) (auto simp: page_append_def Let_def)
    show thesis
      by (rule that [OF r]) (use f keep day(2,6) slot(3) False in auto)
  qed
qed

section \<open>Properties\<close>



text \<open>The open file is chosen by the slot of the minute alone: a page appended at any later hour or day whose
  minute falls into the slot of the open file goes to that file, named after the earlier hour.\<close>

theorem page_file_ignores_hour:
  assumes "page_name_change_interval conf \<noteq> 0"
    and "tm_min t sdiv page_name_change_interval conf = m_cur_min p"
    and "pg_fd p = Some path" "pg_files fs path = Some c"
    and "mkdir_ok env" "write_ok env" "length (day_dir conf t) < PATH_BUF"
  shows "\<exists>p' fs'. page_append env conf t page True p fs = Some (0, p', fs') \<and>
    pg_fd p' = Some path \<and> pg_files fs' = (pg_files fs)(path \<mapsto> c @ page)"
  using assms by (rule page_append_same_slot)

lemma page_file_ignores_hour_witness:
  "\<exists>p' fs'. page_append \<lparr>mkdir_ok = True, open_ok = True, write_ok = True\<rparr> (conf_zeroed\<lparr>page_name_change_interval := 10\<rparr>)
     \<lparr>tm_year = 113, tm_mon = 0, tm_mday = 3, tm_hour = 4, tm_min = 5\<rparr> ''x'' True
     \<lparr>pg_fd = Some ''day2hour1'', m_cur_day = 2, m_cur_min = 0\<rparr> \<lparr>pg_dirs = {}, pg_files = [''day2hour1'' \<mapsto> []]\<rparr> =
       Some (0, p', fs') \<and> pg_fd p' = Some ''day2hour1''"
proof -
  let ?conf = "conf_zeroed\<lparr>page_name_change_interval := 10\<rparr>"
  let ?t = "\<lparr>tm_year = 113, tm_mon = 0, tm_mday = 3, tm_hour = 4, tm_min = 5\<rparr>"
  have dir: "length (day_dir ?conf ?t) < PATH_BUF"
    by (simp add: day_dir_def conf_zeroed_def PATH_BUF_def dec_int_def dec2_def dec_digits.simps)
  show ?thesis
    using page_file_ignores_hour [of ?conf ?t "\<lparr>pg_fd = Some ''day2hour1'', m_cur_day = 2, m_cur_min = 0\<rparr>" "''day2hour1''"
        "\<lparr>pg_dirs = {}, pg_files = [''day2hour1'' \<mapsto> []]\<rparr>" "[]" "\<lparr>mkdir_ok = True, open_ok = True, write_ok = True\<rparr>" "''x''"]
      dir by (fastforce simp: conf_zeroed_def)
qed

end
