(* ===== verification/Spider_State.thy ===== *)
theory Spider_State
  imports Spider_Conf Spider_Statis Selected_Queue Level_Pool Url_Pool Dns_Client Url_Output Page_Output
begin

text \<open>
  \<open>CSpider\<close> (spider.h): the state that the selecting thread and the crawling threads share, as one
  record over the components.
\<close>

record CSpider =
  m_spider_conf :: CSpiderConf
  mp_selected_queue :: CSelectedQueue
  mp_cate_output :: CUrlOutput
  mp_item_output :: CUrlOutput
  mp_fail_output :: CUrlOutput
  mp_cpq :: CUrlPool
  mp_ipq :: CUrlPool
  mp_coq :: CUrlPool
  mp_ioq :: CUrlPool
  m_select_buffer :: "UrlInfo list"
  m_select_back_o :: "UrlInfo list"
  m_select_back_p :: "UrlInfo list"
  m_sites :: "(string \<times> string) list"
  m_select_rounds :: int
  m_statis :: CSpiderStatis
  mp_page_output :: CPageOutput
  m_dns_client :: ip_map
  mp_level_pool :: level_map
  m_conf_change_time :: int
  m_stop_domain_conf_change_time :: int
  m_seed_change_time :: int
  m_conf_path :: string

text \<open>The types of \<open>UrlInfo::type\<close>, as urlpool.h numbers them.\<close>

abbreviation (input) OITEM :: int where "OITEM \<equiv> 0"
abbreviation (input) OCATE :: int where "OCATE \<equiv> 1"
abbreviation (input) PITEM :: int where "PITEM \<equiv> 2"
abbreviation (input) PCATE :: int where "PCATE \<equiv> 3"

text \<open>The members as their constructors leave them, before \<open>init\<close>: \<open>conf\<close> is what the memory of the
  configuration holds.\<close>

definition spider_new :: "CSpiderConf \<Rightarrow> CSpider" where
  "spider_new conf = \<lparr>m_spider_conf = conf, mp_selected_queue = sq_new, mp_cate_output = out_new,
     mp_item_output = out_new, mp_fail_output = out_new, mp_cpq = pool_new, mp_ipq = pool_new,
     mp_coq = pool_new, mp_ioq = pool_new, m_select_buffer = [], m_select_back_o = [],
     m_select_back_p = [], m_sites = [], m_select_rounds = 0, m_statis = statis_new,
     mp_page_output = \<lparr>pg_fd = None, m_cur_day = 0, m_cur_min = 0\<rparr>, m_dns_client = Map.empty,
     mp_level_pool = Map.empty, m_conf_change_time = 0, m_stop_domain_conf_change_time = 0,
     m_seed_change_time = 0, m_conf_path = []\<rparr>"

end
