(* ===== verification/Float32.thy ===== *)
theory Float32
  imports Complex_Main
begin

text \<open>
  The floating point the selection quota is computed in: IEEE 754 binary rounding to nearest, ties
  to even, with precision 24 (\<open>float\<close>) and 53 (\<open>double\<close>), as x86-64 compilers do each operation.
  Values are rationals and the exponent is unbounded: the code divides, multiplies and compares
  integers below \<open>2 ^ 31\<close>, far from the overflow and underflow of either format.
\<close>

definition pow2 :: "int \<Rightarrow> rat" where
  "pow2 e = (if 0 \<le> e then 2 ^ nat e else 1 / 2 ^ nat (- e))"

fun bits :: "nat \<Rightarrow> nat" where
  "bits n = (if n = 0 then 0 else Suc (bits (n div 2)))"

declare bits.simps [simp del]

definition half_even :: "rat \<Rightarrow> int" where
  "half_even x =
     (let f = \<lfloor>x\<rfloor>; r = x - of_int f
      in if r < 1 / 2 then f else if r > 1 / 2 then f + 1 else if even f then f else f + 1)"

text \<open>The exponent of a positive \<open>x\<close>: \<open>2 ^ (p - 1) \<le> x / 2 ^ e < 2 ^ p\<close>.\<close>

definition fexp :: "nat \<Rightarrow> rat \<Rightarrow> int" where
  "fexp p x =
     (let (n, d) = quotient_of x; e = int (bits (nat n)) - int (bits (nat d)) - int p
      in if x / pow2 e < 2 ^ p then e else e + 1)"

definition fround :: "nat \<Rightarrow> rat \<Rightarrow> rat" where
  "fround p x =
     (if x = 0 then 0
      else if 0 < x then of_int (half_even (x / pow2 (fexp p x))) * pow2 (fexp p x)
      else - (of_int (half_even (- x / pow2 (fexp p (- x)))) * pow2 (fexp p (- x))))"

definition f32 :: "rat \<Rightarrow> rat" where "f32 = fround 24"
definition f64 :: "rat \<Rightarrow> rat" where "f64 = fround 53"

text \<open>Conversion to an integer type truncates.\<close>

definition rat_trunc :: "rat \<Rightarrow> int" where
  "rat_trunc x = (if x < 0 then - \<lfloor>- x\<rfloor> else \<lfloor>x\<rfloor>)"

section \<open>Accuracy\<close>

lemma pow2_pos [simp]: "0 < pow2 e"
  by (simp add: pow2_def)

lemma pow2_ne_0 [simp]: "pow2 e \<noteq> 0"
  using pow2_pos [of e] by (rule less_imp_neq [symmetric])

lemma pow2_succ: "pow2 (e + 1) = 2 * pow2 e"
proof (cases "0 \<le> e")
  case True
  then show ?thesis by (simp add: pow2_def nat_add_distrib)
next
  case False
  show ?thesis
  proof (cases "e = - 1")
    case True
    then show ?thesis by (simp add: pow2_def)
  next
    case neq: False
    with False have "nat (- e) = Suc (nat (- (e + 1)))" and "\<not> 0 \<le> e + 1" by simp_all
    with False show ?thesis by (simp add: pow2_def)
  qed
qed

lemma pow2_add_nat: "pow2 (e + int k) = 2 ^ k * pow2 e"
proof (induction k)
  case (Suc k)
  have "pow2 (e + int (Suc k)) = pow2 (e + int k + 1)" by (simp add: algebra_simps)
  also have "\<dots> = 2 * pow2 (e + int k)" by (rule pow2_succ)
  finally show ?case by (simp add: Suc)
qed simp

lemma half_even_near: "\<bar>of_int (half_even x) - x\<bar> \<le> 1 / 2"
proof -
  obtain f where f: "f = \<lfloor>x\<rfloor>" by simp
  then have "of_int f \<le> x" "x < of_int f + 1" by linarith+
  then show ?thesis unfolding half_even_def Let_def f [symmetric] by (simp add: abs_if)
qed

lemma half_even_nonneg: "0 \<le> x \<Longrightarrow> 0 \<le> half_even x"
  by (simp add: half_even_def Let_def)

lemma bits_bounds: "0 < n \<Longrightarrow> 2 ^ (bits n - 1) \<le> n \<and> n < 2 ^ bits n"
proof (induction n rule: bits.induct)
  case (1 n)
  show ?case
  proof (cases "n = 1")
    case True
    then show ?thesis by (simp add: bits.simps [of "Suc 0"] bits.simps [of 0])
  next
    case False
    with "1.prems" have n2: "0 < n div 2" by auto
    with "1.IH" "1.prems" have ih: "2 ^ (bits (n div 2) - 1) \<le> n div 2" "n div 2 < 2 ^ bits (n div 2)"
      by auto
    have b: "bits n = Suc (bits (n div 2))" using "1.prems" by (simp add: bits.simps [of n])
    have "0 < bits (n div 2)" using n2 by (simp add: bits.simps [of "n div 2"])
    then have "2 ^ bits (n div 2) = 2 * (2::nat) ^ (bits (n div 2) - 1)"
      by (metis Suc_diff_1 power_Suc)
    with ih have "2 * 2 ^ (bits (n div 2) - 1) \<le> n \<and> n < 2 * 2 ^ bits (n div 2)" by linarith
    with \<open>2 ^ bits (n div 2) = _\<close> show ?thesis by (simp add: b)
  qed
qed

lemma pow2_diff: "pow2 (int a - int b) = 2 ^ a / 2 ^ b"
proof -
  have "pow2 (int a - int b) = 2 ^ a * pow2 (- int b)"
    using pow2_add_nat [of "- int b" a] by (simp add: algebra_simps)
  also have "pow2 (- int b) = 1 / 2 ^ b" by (cases b) (simp_all add: pow2_def nat_add_distrib)
  finally show ?thesis by simp
qed

lemma fexp_low:
  assumes "0 < x" "0 < p"
  shows "2 ^ (p - 1) \<le> x / pow2 (fexp p x)"
proof -
  obtain n d where q: "quotient_of x = (n, d)" by (metis surj_pair)
  have d: "0 < d" by (rule quotient_of_denom_pos [OF q])
  have x: "x = of_int n / of_int d" by (rule quotient_of_div [OF q])
  with assms(1) d have n: "0 < n" by (simp add: zero_less_divide_iff)
  let ?bn = "bits (nat n)" and ?bd = "bits (nat d)" and ?e = "int (bits (nat n)) - int (bits (nat d)) - int p"
  have "2 ^ (?bn - 1) \<le> nat n" "nat d < 2 ^ ?bd"
    using bits_bounds [of "nat n"] bits_bounds [of "nat d"] n d by simp_all
  then have "(2 ^ (?bn - 1) :: int) \<le> n" "d < (2 ^ ?bd :: int)"
    using n d by (simp_all add: nat_le_iff le_nat_iff nat_less_iff)
  then have nl: "(2 ^ (?bn - 1) :: rat) \<le> of_int n" and dl: "of_int d \<le> (2 ^ ?bd :: rat)"
    by (metis of_int_le_iff of_int_numeral of_int_power, metis less_imp_le of_int_le_iff of_int_numeral of_int_power)
  have "(2 ^ (?bn - 1) :: rat) / 2 ^ ?bd \<le> of_int n / of_int d"
    using nl dl d n by (intro frac_le) simp_all
  then have xl: "(2 ^ (?bn - 1) :: rat) / 2 ^ ?bd \<le> x" by (simp add: x)
  have "0 < ?bn" using n by (simp add: bits.simps [of "nat n"])
  then have e: "int (?bn - 1) - int ?bd = ?e + int (p - 1)" using assms(2) by simp
  have "(2 ^ (?bn - 1) :: rat) / 2 ^ ?bd = pow2 (int (?bn - 1) - int ?bd)"
    by (rule pow2_diff [symmetric])
  also have "\<dots> = 2 ^ (p - 1) * pow2 ?e" unfolding e by (rule pow2_add_nat)
  finally have "(2 ^ (?bn - 1) :: rat) / 2 ^ ?bd = 2 ^ (p - 1) * pow2 ?e" .
  with xl have low: "2 ^ (p - 1) \<le> x / pow2 ?e" by (simp add: pos_le_divide_eq)
  show ?thesis
  proof (cases "x / pow2 ?e < 2 ^ p")
    case True
    then show ?thesis using low by (simp add: fexp_def q)
  next
    case False
    then have "2 * 2 ^ (p - 1) \<le> x / pow2 ?e" using assms(2) by (cases p) simp_all
    then have "2 ^ (p - 1) \<le> x / pow2 (?e + 1)"
      by (simp add: pow2_succ pos_le_divide_eq mult.assoc mult.left_commute)
    then show ?thesis using False by (simp add: fexp_def q)
  qed
qed

text \<open>A rounding is off by at most half a unit in the last place: \<open>2 ^ - p\<close> of the value.\<close>

lemma fround_error:
  assumes "0 \<le> x" "0 < p"
  shows "\<bar>fround p x - x\<bar> * 2 ^ p \<le> x"
proof (cases "x = 0")
  case True
  then show ?thesis by (simp add: fround_def)
next
  case False
  with assms(1) have pos: "0 < x" by simp
  let ?e = "fexp p x"
  let ?q = "x / pow2 ?e"
  have xq: "x = ?q * pow2 ?e" using pow2_pos [of ?e] by simp
  have fr: "fround p x - x = (of_int (half_even ?q) - ?q) * pow2 ?e"
    using pos by (simp add: fround_def left_diff_distrib)
  have "\<bar>of_int (half_even ?q) - ?q\<bar> * 2 ^ p \<le> 1 / 2 * 2 ^ p"
    using half_even_near [of ?q] by (intro mult_right_mono) simp_all
  also have "\<dots> = 2 ^ (p - 1)" using assms(2) by (cases p) simp_all
  also have "\<dots> \<le> ?q" by (rule fexp_low [OF pos assms(2)])
  finally have "\<bar>of_int (half_even ?q) - ?q\<bar> * 2 ^ p * pow2 ?e \<le> ?q * pow2 ?e"
    by (intro mult_right_mono) (simp_all add: less_imp_le)
  then show ?thesis unfolding fr using pow2_pos [of ?e] by (simp add: abs_mult mult_ac abs_of_pos)
qed

lemma fround_nonneg: "0 \<le> x \<Longrightarrow> 0 \<le> fround p x"
  using half_even_nonneg [of "x / pow2 (fexp p x)"]
  by (auto simp: fround_def zero_le_mult_iff divide_nonneg_pos less_imp_le)

lemma fround_0 [simp]: "fround p 0 = 0"
  by (simp add: fround_def)

lemma f32_nonneg: "0 \<le> x \<Longrightarrow> 0 \<le> f32 x"
  by (simp add: f32_def fround_nonneg)

lemma rat_trunc_nonneg: "0 \<le> x \<Longrightarrow> 0 \<le> rat_trunc x"
  by (simp add: rat_trunc_def)

end
