(* ===== verification/Spider_Select.thy ===== *)
theory Spider_Select
  imports Spider_State Float32
begin

text \<open>
  \<open>CSpider::select_url\<close> and \<open>CSpider::insert_url\<close> (spider.cpp): once a round, the selecting thread
  empties the four pools, divides their URLs among the domains, picks a quota of each domain into
  \<open>m_select_buffer\<close>, keeps the rest aside in \<open>m_select_back_p\<close> and \<open>m_select_back_o\<close>, and then puts
  the rest back into the pools and the buffer into the selected queue.
\<close>

section \<open>Quotas\<close>

text \<open>\<open>float cate_percent = 1.0*cate_percent/(cate_percent + item_percent)\<close>.\<close>

definition cate_share :: "CSpiderConf \<Rightarrow> rat" where
  "cate_share conf = f32 (f64 (of_int (cate_percent conf) / of_int (cate_percent conf + item_percent conf)))"

text \<open>\<open>(cate_percent * num) * size / link_num\<close> in \<open>float\<close>, truncated to \<open>int\<close>.\<close>

definition cate_quota :: "rat \<Rightarrow> int \<Rightarrow> nat \<Rightarrow> int \<Rightarrow> int" where
  "cate_quota share num sz link_num =
     (if link_num = 0 then 0
      else rat_trunc (f32 (f32 (f32 (share * f32 (of_int num)) * f32 (of_nat sz)) / f32 (of_int link_num))))"

text \<open>\<open>num * size / link_num - cate + 1\<close> in \<open>size_t\<close>, stored into an \<open>int\<close>.\<close>

definition item_quota :: "int \<Rightarrow> nat \<Rightarrow> int \<Rightarrow> int \<Rightarrow> int" where
  "item_quota num sz link_num cate =
     (if link_num = 0 then 0
      else sint (ucast ((of_int num * of_nat sz) div of_int link_num - of_int cate + 1 :: 64 word) :: 32 word))"

definition at_least_10 :: "int \<Rightarrow> int" where
  "at_least_10 n = (if n < 10 then 10 else n)"

definition quotas :: "rat \<Rightarrow> int \<Rightarrow> nat \<Rightarrow> int \<Rightarrow> int \<times> int" where
  "quotas share num sz link_num =
     (let c = cate_quota share num sz link_num; i = item_quota num sz link_num c
      in (at_least_10 c, at_least_10 i))"

section \<open>Dividing the pools among the domains\<close>

definition prio_domains :: "(string \<times> DomainAttr) list \<Rightarrow> string list" where
  "prio_domains dm = map fst (filter (\<lambda>(d, a). isSeed a = 1 \<and> isShield a = 0) dm)"

definition ord_domains :: "(string \<times> DomainAttr) list \<Rightarrow> string list" where
  "ord_domains dm = map fst (filter (\<lambda>(d, a). isSeed a = 0 \<and> isShield a = 0) dm)"

definition empty_map :: "(string \<times> DomainAttr) list \<Rightarrow> (string \<rightharpoonup> UrlInfo list)" where
  "empty_map dm = map_of (map (\<lambda>(d, a). (d, [])) dm)"

text \<open>One URL of a pool: its type is set, and it goes to the list of its domain if there is one.\<close>

definition file_url :: "int \<Rightarrow> UrlInfo \<Rightarrow> (string \<rightharpoonup> UrlInfo list) \<Rightarrow> (string \<rightharpoonup> UrlInfo list)" where
  "file_url ty u sm =
     (case sm (ui_domain u) of None \<Rightarrow> sm
      | Some us \<Rightarrow> sm(ui_domain u \<mapsto> us @ [u\<lparr>ui_type := ty\<rparr>]))"

definition file_pools :: "CSpider \<Rightarrow> (string \<rightharpoonup> UrlInfo list)" where
  "file_pools sp =
     fold (file_url OCATE) (m_url_queue (mp_coq sp))
       (fold (file_url OITEM) (m_url_queue (mp_ioq sp))
         (fold (file_url PITEM) (m_url_queue (mp_ipq sp))
           (fold (file_url PCATE) (m_url_queue (mp_cpq sp)) (empty_map (m_domain (m_statis sp))))))"

definition drain_pools :: "CSpider \<Rightarrow> CSpider" where
  "drain_pools sp = sp\<lparr>mp_cpq := (mp_cpq sp)\<lparr>m_url_queue := []\<rparr>, mp_ipq := (mp_ipq sp)\<lparr>m_url_queue := []\<rparr>,
     mp_ioq := (mp_ioq sp)\<lparr>m_url_queue := []\<rparr>, mp_coq := (mp_coq sp)\<lparr>m_url_queue := []\<rparr>\<rparr>"

definition record_sizes :: "CSpider \<Rightarrow> CSpider" where
  "record_sizes sp = sp\<lparr>m_statis := (m_statis sp)\<lparr>
     m_CPQ_url_num := int (length (m_url_queue (mp_cpq sp))),
     m_IPQ_url_num := int (length (m_url_queue (mp_ipq sp))),
     m_COQ_url_num := int (length (m_url_queue (mp_coq sp))),
     m_IOQ_url_num := int (length (m_url_queue (mp_ioq sp))),
     m_SQ_url_num := sq_size (mp_selected_queue sp)\<rparr>\<rparr>"

section \<open>Picking from one domain\<close>

text \<open>The first loop: URLs in order until one of the two quotas is used up; \<open>ct\<close> is the type counted
  as category. The result is what was taken, the rest, and the two counts.\<close>

fun scan_both :: "int \<Rightarrow> int \<Rightarrow> int \<Rightarrow> int \<Rightarrow> int \<Rightarrow> UrlInfo list
    \<Rightarrow> UrlInfo list \<times> UrlInfo list \<times> int \<times> int" where
  "scan_both ct qc qi c i [] = ([], [], c, i)"
| "scan_both ct qc qi c i (u # us) =
     (if c < qc \<and> i < qi
      then (let (t, r, c', i') =
              (if ui_type u = ct then scan_both ct qc qi (c + 1) i us else scan_both ct qc qi c (i + 1) us)
            in (u # t, r, c', i'))
      else ([], u # us, c, i))"

text \<open>The second loop: only URLs of type \<open>flag\<close>, until \<open>n\<close> reaches \<open>m\<close>; the others are set aside. The
  result is what was taken, what was set aside, the rest, and the count.\<close>

fun scan_rest :: "int \<Rightarrow> int \<Rightarrow> int \<Rightarrow> UrlInfo list
    \<Rightarrow> UrlInfo list \<times> UrlInfo list \<times> UrlInfo list \<times> int" where
  "scan_rest flag m n [] = ([], [], [], n)"
| "scan_rest flag m n (u # us) =
     (if n < m
      then if ui_type u = flag
           then (let (t, b, r, n') = scan_rest flag m (n + 1) us in (u # t, b, r, n'))
           else (let (t, b, r, n') = scan_rest flag m n us in (t, u # b, r, n'))
      else ([], [], u # us, n))"

text \<open>The third loop: take from the end of the set-aside list while it has more than five.\<close>

fun take_back :: "nat \<Rightarrow> UrlInfo list \<Rightarrow> UrlInfo list \<Rightarrow> int \<Rightarrow> int
    \<Rightarrow> UrlInfo list \<times> UrlInfo list \<times> int \<times> int" where
  "take_back 0 buf back it ct = (buf, back, it, ct)"
| "take_back (Suc n) buf back it ct =
     (if 5 < length back
      then (let b = last back
            in if ui_type b = 0 then take_back n (buf @ [b]) (butlast back) (it + 1) ct
               else take_back n (buf @ [b]) (butlast back) it (ct + 1))
      else (buf, back, it, ct))"

text \<open>What the loops over the domains change.\<close>

record picking =
  p_buffer :: "UrlInfo list"
  p_back :: "UrlInfo list"
  p_sites :: "(string \<times> string) list"
  p_statis :: CSpiderStatis
  p_count :: int

definition take_urls :: "UrlInfo list \<Rightarrow> picking \<Rightarrow> picking" where
  "take_urls us st = st\<lparr>p_buffer := p_buffer st @ us,
     p_sites := fold (\<lambda>u. sm_insert (ui_site u) no_ip) us (p_sites st),
     p_count := p_count st + int (length us)\<rparr>"

text \<open>The body of both loops over domains: \<open>ct\<close> and \<open>it\<close> are the types of the loop's categories and
  items, \<open>qc\<close> and \<open>qi\<close> the quotas, \<open>slots\<close> the sum the code compares the selection with.\<close>

definition pick_domain :: "int \<Rightarrow> int \<Rightarrow> int \<Rightarrow> int \<Rightarrow> int \<Rightarrow> string \<Rightarrow> UrlInfo list \<Rightarrow> picking \<Rightarrow> picking" where
  "pick_domain ct it slots qc qi d us st =
     (let (got, rest, c, i) = scan_both ct qc qi 0 0 us; st1 = take_urls got st
      in if rest = [] then
           st1\<lparr>p_statis := set_domain_cate_select_num d c (set_domain_item_select_num d i (p_statis st1))\<rparr>
         else
           (let cate_left = (c < qc);
                flag = (if cate_left then ct else it);
                st2 = st1\<lparr>p_statis := (if cate_left then set_domain_item_select_num d qi (p_statis st1)
                                       else set_domain_cate_select_num d qc (p_statis st1))\<rparr>;
                (more, aside, tail, n) =
                  scan_rest flag (if cate_left then qc else qi) (if cate_left then c else i) rest;
                st3 = take_urls more st2;
                st4 = st3\<lparr>p_back := p_back st3 @ aside @ tail,
                          p_statis := (if flag = it then set_domain_item_select_num d n (p_statis st3)
                                       else set_domain_cate_select_num d n (p_statis st3))\<rparr>;
                item_num = get_domain_item_select_num (p_statis st4) d;
                cate_num = get_domain_cate_select_num (p_statis st4) d
            in if item_num + cate_num \<ge> slots - 20 then st4
               else (let (buf, back, item_num', cate_num') =
                       take_back (nat (slots - (item_num + cate_num))) (p_buffer st4) (p_back st4)
                         item_num cate_num
                     in st4\<lparr>p_buffer := buf, p_back := back,
                            p_statis := set_domain_cate_select_num d cate_num'
                              (set_domain_item_select_num d item_num' (p_statis st4))\<rparr>)))"

definition domain_urls :: "(string \<rightharpoonup> UrlInfo list) \<Rightarrow> string \<Rightarrow> UrlInfo list" where
  "domain_urls sm d = (case sm d of None \<Rightarrow> [] | Some us \<Rightarrow> us)"

definition pick_prio :: "rat \<Rightarrow> int \<Rightarrow> int \<Rightarrow> (string \<rightharpoonup> UrlInfo list) \<Rightarrow> string \<Rightarrow> picking \<Rightarrow> picking" where
  "pick_prio share num link_num sm d st =
     (let us = domain_urls sm d; (qc, qi) = quotas share num (length us) link_num
      in pick_domain PCATE PITEM (qc + qc) qc qi d us st)"

definition pick_ord :: "rat \<Rightarrow> int \<Rightarrow> int \<Rightarrow> (string \<rightharpoonup> UrlInfo list) \<Rightarrow> string \<Rightarrow> picking \<Rightarrow> picking" where
  "pick_ord share num link_num sm d st =
     (let us = domain_urls sm d; (qc, qi) = quotas share num (length us) link_num
      in pick_domain OCATE OITEM (qc + qi) qc qi d us st)"

section \<open>select_url\<close>

text \<open>Everything up to the statistics file: the pools are emptied and the URLs picked.\<close>

definition select_pick :: "CSpider \<Rightarrow> CSpider" where
  "select_pick sp0 =
     (let conf = m_spider_conf sp0;
          dm = m_domain (m_statis sp0);
          sm = file_pools sp0;
          o_link_num = int (length (m_url_queue (mp_coq sp0)) + length (m_url_queue (mp_ioq sp0)));
          p_link_num = int (length (m_url_queue (mp_cpq sp0)) + length (m_url_queue (mp_ipq sp0)));
          sp = drain_pools (record_sizes sp0);
          prio_num = select_nums_per_time conf * priority_quota conf sdiv 10;
          ord_num0 = select_nums_per_time conf - prio_num;
          st = fold (pick_prio (cate_share conf) prio_num p_link_num sm) (prio_domains dm)
                 \<lparr>p_buffer = m_select_buffer sp, p_back = m_select_back_p sp, p_sites = m_sites sp,
                  p_statis = m_statis sp, p_count = 0\<rparr>;
          ord_num = (if p_count st < prio_num then ord_num0 + prio_num - p_count st else ord_num0);
          so = fold (pick_ord (cate_share conf) ord_num o_link_num sm) (ord_domains dm)
                 (st\<lparr>p_back := m_select_back_o sp\<rparr>)
      in sp\<lparr>m_select_buffer := p_buffer so, m_select_back_p := p_back st, m_select_back_o := p_back so,
            m_sites := p_sites so, m_statis := p_statis so\<rparr>)"

text \<open>
  \<open>now\<close> is the local time, \<open>shuffle\<close> is \<open>random_shuffle\<close>, and \<open>drains\<close> says whether the crawling
  threads ever bring the selected queue down to the threshold while the thread waits for it:
  \<open>None\<close> is waiting for ever, or writing statistics to a NULL file. The comparison of the sizes
  with the threshold is unsigned.
\<close>

definition select_url :: "string \<Rightarrow> (UrlInfo list \<Rightarrow> UrlInfo list) \<Rightarrow> bool \<Rightarrow> CSpider \<Rightarrow> (int \<times> CSpider) option" where
  "select_url now shuffle drains sp0 =
     (let sp1 = select_pick sp0
      in case set_statis_to_file now (m_statis sp1) of None \<Rightarrow> None
         | Some stat \<Rightarrow>
             (let sp = sp1\<lparr>m_statis := stat\<rparr>; conf = m_spider_conf sp
              in if m_select_rounds sp > 3 \<and>
                    length (m_select_buffer sp) + length (m_select_back_o sp) + length (m_select_back_p sp)
                      < unat (of_int (min_select_threshold conf) :: 32 word)
                 then if sq_size (mp_selected_queue sp) > min_select_threshold conf \<and> \<not> drains then None
                      else Some (- 1, sp\<lparr>mp_selected_queue := sq_clear (mp_selected_queue sp), m_select_rounds := 0\<rparr>)
                 else Some (0, sp\<lparr>m_select_buffer := shuffle (m_select_buffer sp)\<rparr>)))"

section \<open>insert_url\<close>

definition put_back_o :: "UrlInfo \<Rightarrow> CSpider \<Rightarrow> CSpider" where
  "put_back_o u sp =
     (if ui_type u = OCATE then sp\<lparr>mp_coq := add_to_que u (mp_coq sp)\<rparr>
      else if ui_type u = OITEM then sp\<lparr>mp_ioq := add_to_que u (mp_ioq sp)\<rparr> else sp)"

definition put_back_p :: "UrlInfo \<Rightarrow> CSpider \<Rightarrow> CSpider" where
  "put_back_p u sp =
     (if ui_type u = PCATE then sp\<lparr>mp_cpq := add_to_que u (mp_cpq sp)\<rparr>
      else if ui_type u = PITEM then sp\<lparr>mp_ipq := add_to_que u (mp_ipq sp)\<rparr> else sp)"

text \<open>Resolving every known site, in key order; \<open>env\<close> is what \<open>get_ip\<close> meets for each.\<close>

fun resolve_sites :: "CSpiderConf \<Rightarrow> (string \<Rightarrow> (int \<Rightarrow> dns_env) \<times> string) \<Rightarrow> (string \<times> string) list
    \<Rightarrow> ip_map \<Rightarrow> ((string \<times> string) list \<times> ip_map) option" where
  "resolve_sites conf env [] m = Some ([], m)"
| "resolve_sites conf env ((s, _) # ss) m = do {
     (ip, m1) \<leftarrow> get_site_ip conf (env s) (cstr s) m;
     (ss', m2) \<leftarrow> resolve_sites conf env ss m1;
     Some ((s, ip) # ss', m2) }"

definition queue_of_type :: "int \<Rightarrow> queue_type" where
  "queue_of_type ty =
     (if ty = 0 then QUEUE_TYPE_IOQ else if ty = 1 then QUEUE_TYPE_COQ
      else if ty = 2 then QUEUE_TYPE_IPQ else if ty = 3 then QUEUE_TYPE_CPQ else QUEUE_TYPE_COQ)"

definition sq_item :: "UrlInfo \<Rightarrow> SSQItem" where
  "sq_item u = \<lparr>sq_url = ui_url u, fail_count = 0, dns_count = 0,
     sq_last_crawl_time = ui_last_crawl_time u, which_queue = queue_of_type (ui_type u)\<rparr>"

text \<open>The last loop. \<open>busy n\<close> is what the crawling threads do to the queue before the push of the
  \<open>n\<close>-th URL succeeds; if the queue is still full then, they never make room: \<open>None\<close>.\<close>

fun push_selected :: "(nat \<Rightarrow> CSelectedQueue \<Rightarrow> CSelectedQueue) \<Rightarrow> nat \<Rightarrow> UrlInfo list \<Rightarrow> CSelectedQueue
    \<Rightarrow> CSelectedQueue option" where
  "push_selected busy n [] q = Some q"
| "push_selected busy n (u # us) q =
     (case sq_push (sq_item u) (busy n q) of
        (True, q') \<Rightarrow> push_selected busy (Suc n) us q'
      | (False, _) \<Rightarrow> None)"

definition insert_url :: "(string \<Rightarrow> (int \<Rightarrow> dns_env) \<times> string) \<Rightarrow> (nat \<Rightarrow> CSelectedQueue \<Rightarrow> CSelectedQueue)
    \<Rightarrow> CSpider \<Rightarrow> (int \<times> CSpider) option" where
  "insert_url env busy sp0 =
     (let sp1 = fold put_back_p (m_select_back_p sp0) (fold put_back_o (m_select_back_o sp0) sp0)
      in do {
        (sites, ips) \<leftarrow> resolve_sites (m_spider_conf sp1) env (m_sites sp1) (clear_map (m_dns_client sp1));
        q \<leftarrow> push_selected busy 0 (m_select_buffer sp1) (mp_selected_queue sp1);
        Some (0, sp1\<lparr>m_dns_client := ips, m_sites := sites, m_select_back_o := [], m_select_back_p := [],
                     mp_selected_queue := q, m_select_buffer := []\<rparr>) })"

section \<open>The quotas\<close>

lemma quotas_at_least_10: "fst (quotas share num sz link_num) \<ge> 10 \<and> snd (quotas share num sz link_num) \<ge> 10"
  by (simp add: quotas_def at_least_10_def Let_def)

lemma item_quota_exact:
  assumes "0 \<le> num" "0 < link_num" "num * int sz < 2 ^ 63" "link_num < 2 ^ 31" "0 \<le> cate"
    and "- (2 ^ 31) \<le> num * int sz div link_num - cate + 1" "num * int sz div link_num - cate + 1 < 2 ^ 31"
  shows "item_quota num sz link_num cate = num * int sz div link_num - cate + 1"
proof -
  let ?q = "num * int sz div link_num"
  have "(of_int num * of_nat sz :: 64 word) = of_int (num * int sz)" by simp
  then have "uint (of_int num * of_nat sz :: 64 word) = num * int sz"
    using assms(1,3) by (simp add: uint_of_int_64 del: of_int_mult)
  moreover have "uint (of_int link_num :: 64 word) = link_num"
    using assms(2,4) by (simp add: uint_of_int_64)
  ultimately have "(of_int num * of_nat sz :: 64 word) div of_int link_num = of_int ?q"
    by (simp add: word_div_def)
  then have "item_quota num sz link_num cate = sint (ucast (of_int (?q - cate + 1) :: 64 word) :: 32 word)"
    using assms(2) by (simp add: item_quota_def)
  also have "\<dots> = ?q - cate + 1"
    using assms(6,7) by (simp only: ucast_of_int_32 sint_of_int_32)
  finally show ?thesis .
qed

section \<open>One domain\<close>

lemma scan_both_split: "scan_both ct qc qi c i us = (t, r, c', i') \<Longrightarrow> t @ r = us"
  by (induction us arbitrary: c i t) (auto simp: Let_def split: if_splits prod.splits)

lemma scan_both_counts:
  "scan_both ct qc qi c i us = (t, r, c', i') \<Longrightarrow> c' + i' = c + i + int (length t)"
  by (induction us arbitrary: c i t) (force simp: Let_def split: if_splits prod.splits)+

lemma scan_both_bounds:
  "scan_both ct qc qi c i us = (t, r, c', i') \<Longrightarrow> c \<le> qc \<Longrightarrow> i \<le> qi \<Longrightarrow> c' \<le> qc \<and> i' \<le> qi"
  by (induction us arbitrary: c i t) (fastforce simp: Let_def split: if_splits prod.splits)+

lemma scan_both_stop:
  "scan_both ct qc qi c i us = (t, r, c', i') \<Longrightarrow> r \<noteq> [] \<Longrightarrow> qc \<le> c' \<or> qi \<le> i'"
  by (induction us arbitrary: c i t) (fastforce simp: Let_def split: if_splits prod.splits)+

lemma scan_rest_mset:
  "scan_rest flag m n us = (t, b, r, n') \<Longrightarrow> mset t + mset b + mset r = mset us"
  by (induction us arbitrary: n t b) (force simp: Let_def split: if_splits prod.splits)+

lemma scan_rest_count:
  "scan_rest flag m n us = (t, b, r, n') \<Longrightarrow> n' = n + int (length t)"
  by (induction us arbitrary: n t b) (force simp: Let_def split: if_splits prod.splits)+

lemma scan_rest_bound:
  "scan_rest flag m n us = (t, b, r, n') \<Longrightarrow> n \<le> m \<Longrightarrow> n' \<le> m"
  by (induction us arbitrary: n t b) (force simp: Let_def split: if_splits prod.splits)+

lemma take_back_mset:
  "take_back k buf bk it ct = (buf', bk', it', ct') \<Longrightarrow> mset buf' + mset bk' = mset buf + mset bk"
proof (induction k arbitrary: buf bk it ct)
  case (Suc k)
  show ?case
  proof (cases "5 < length bk")
    case True
    then have "bk \<noteq> []" by auto
    from mset_butlast_last [OF this] Suc True show ?thesis
      by (fastforce simp: Let_def split: if_splits)
  qed (use Suc.prems in simp)
qed simp

lemma take_back_length:
  "take_back k buf bk it ct = (buf', bk', it', ct') \<Longrightarrow> length buf' \<le> length buf + k"
  by (induction k arbitrary: buf bk it ct) (fastforce simp: Let_def split: if_splits)+

lemma take_urls_simps [simp]:
  "p_buffer (take_urls us st) = p_buffer st @ us" "p_back (take_urls us st) = p_back st"
  "p_statis (take_urls us st) = p_statis st"
  by (simp_all add: take_urls_def)

lemma pick_domain_mset:
  "mset (p_buffer (pick_domain ct it slots qc qi d us st)) + mset (p_back (pick_domain ct it slots qc qi d us st)) =
   mset (p_buffer st) + mset (p_back st) + mset us"
proof -
  obtain got rest c i where sb: "scan_both ct qc qi 0 0 us = (got, rest, c, i)" by (metis prod_cases4)
  have us: "mset us = mset got + mset rest" using scan_both_split [OF sb] by auto
  show ?thesis
  proof (cases "rest = []")
    case True
    with sb us show ?thesis by (simp add: pick_domain_def)
  next
    case False
    define flag where "flag = (if c < qc then ct else it)"
    define m where "m = (if c < qc then qc else qi)"
    define n0 where "n0 = (if c < qc then c else i)"
    obtain more aside tail n where sr: "scan_rest flag m n0 rest = (more, aside, tail, n)"
      by (metis prod_cases4)
    note rest = scan_rest_mset [OF sr]
    show ?thesis
      using sb sr us rest False
      by (auto simp: pick_domain_def Let_def flag_def m_def n0_def ac_simps
          split: prod.splits dest!: take_back_mset)
  qed
qed

lemma pick_domain_bound:
  assumes "0 \<le> qc" "0 \<le> qi" "ct \<noteq> it"
  shows "int (length (p_buffer (pick_domain ct it slots qc qi d us st))) \<le>
         int (length (p_buffer st)) + max (qc + qi) slots"
proof -
  obtain got rest c i where sb: "scan_both ct qc qi 0 0 us = (got, rest, c, i)" by (metis prod_cases4)
  have ci: "c + i = int (length got)" "c \<le> qc" "i \<le> qi"
    using scan_both_counts [OF sb] scan_both_bounds [OF sb] assms by auto
  show ?thesis
  proof (cases "rest = []")
    case True
    with sb ci show ?thesis by (simp add: pick_domain_def)
  next
    case False
    define flag where "flag = (if c < qc then ct else it)"
    define m where "m = (if c < qc then qc else qi)"
    define n0 where "n0 = (if c < qc then c else i)"
    obtain more aside tail n where sr: "scan_rest flag m n0 rest = (more, aside, tail, n)"
      by (metis prod_cases4)
    have n: "n = n0 + int (length more)" "n \<le> m"
      using scan_rest_count [OF sr] scan_rest_bound [OF sr] ci by (auto simp: m_def n0_def)
    have full: "c < qc \<Longrightarrow> i = qi" "\<not> c < qc \<Longrightarrow> c = qc"
      using scan_both_stop [OF sb False] ci by auto
    let ?total = "int (length got) + int (length more)"
    have total: "?total \<le> qc + qi" "c < qc \<Longrightarrow> qi + n = ?total" "\<not> c < qc \<Longrightarrow> n + qc = ?total"
      using n ci full by (auto simp: m_def n0_def split: if_splits)
    show ?thesis
      using sb sr False total assms(3)
      by (auto simp: pick_domain_def Let_def flag_def m_def n0_def spider_defs
          split: prod.splits dest!: take_back_length)
  qed
qed

section \<open>All pools\<close>

text \<open>The URLs of the four pools with their types, and the domains a URL can be selected for.\<close>

definition tag :: "int \<Rightarrow> UrlInfo \<Rightarrow> UrlInfo" where
  "tag ty u = u\<lparr>ui_type := ty\<rparr>"

definition pooled :: "CSpider \<Rightarrow> UrlInfo list" where
  "pooled sp = map (tag PCATE) (m_url_queue (mp_cpq sp)) @ map (tag PITEM) (m_url_queue (mp_ipq sp)) @
     map (tag OITEM) (m_url_queue (mp_ioq sp)) @ map (tag OCATE) (m_url_queue (mp_coq sp))"

definition selectable :: "CSpider \<Rightarrow> string \<Rightarrow> bool" where
  "selectable sp d = (case map_of (m_domain (m_statis sp)) d of None \<Rightarrow> False
     | Some a \<Rightarrow> isShield a = 0 \<and> (isSeed a = 0 \<or> isSeed a = 1))"

lemma ui_domain_tag [simp]: "ui_domain (tag ty u) = ui_domain u"
  by (simp add: tag_def)

lemma fold_file_url:
  "fold (file_url ty) us sm d = map_option (\<lambda>vs. vs @ filter (\<lambda>u. ui_domain u = d) (map (tag ty) us)) (sm d)"
proof (induction us arbitrary: sm)
  case (Cons u us)
  then show ?case
    by (cases "sm (ui_domain u)"; cases "sm d") (auto simp: file_url_def tag_def)
qed (simp add: option.map_id0 [unfolded id_def] option.map_ident)

lemma empty_map_eq: "empty_map dm d = (if d \<in> fst ` set dm then Some [] else None)"
  by (induction dm) (auto simp: empty_map_def)

lemma file_pools_domain:
  "domain_urls (file_pools sp) d =
     (if d \<in> fst ` set (m_domain (m_statis sp)) then filter (\<lambda>u. ui_domain u = d) (pooled sp) else [])"
  by (simp add: domain_urls_def file_pools_def fold_file_url empty_map_eq pooled_def)

lemma set_prio_ord:
  assumes "distinct (map fst dm)"
  shows "d \<in> set (prio_domains dm) \<longleftrightarrow> (\<exists>a. map_of dm d = Some a \<and> isSeed a = 1 \<and> isShield a = 0)"
    and "d \<in> set (ord_domains dm) \<longleftrightarrow> (\<exists>a. map_of dm d = Some a \<and> isSeed a = 0 \<and> isShield a = 0)"
  using assms by (force simp: prio_domains_def ord_domains_def)+

lemma distinct_prio_ord:
  assumes "distinct (map fst dm)"
  shows "distinct (prio_domains dm @ ord_domains dm)"
proof -
  have "set (prio_domains dm) \<inter> set (ord_domains dm) = {}"
    using set_prio_ord [OF assms] by auto
  then show ?thesis
    using assms by (simp add: prio_domains_def ord_domains_def distinct_map_fst_filter)
qed

lemma fold_pick_mset:
  assumes "\<And>d st. mset (p_buffer (f d st)) + mset (p_back (f d st)) = mset (p_buffer st) + mset (p_back st) + mset (g d)"
  shows "mset (p_buffer (fold f ds st)) + mset (p_back (fold f ds st)) =
    mset (p_buffer st) + mset (p_back st) + mset (concat (map g ds))"
proof (induction ds arbitrary: st)
  case (Cons d ds)
  then show ?case using Cons [of "f d st"] assms [of d st] by (simp add: ac_simps)
qed simp

lemma pick_prio_mset:
  "mset (p_buffer (pick_prio share num link_num sm d st)) + mset (p_back (pick_prio share num link_num sm d st)) =
   mset (p_buffer st) + mset (p_back st) + mset (domain_urls sm d)"
  by (simp add: pick_prio_def Let_def pick_domain_mset split: prod.split)

lemma pick_ord_mset:
  "mset (p_buffer (pick_ord share num link_num sm d st)) + mset (p_back (pick_ord share num link_num sm d st)) =
   mset (p_buffer st) + mset (p_back st) + mset (domain_urls sm d)"
  by (simp add: pick_ord_def Let_def pick_domain_mset split: prod.split)

definition picked :: "CSpider \<Rightarrow> UrlInfo multiset" where
  "picked sp = mset (m_select_buffer sp) + mset (m_select_back_p sp) + mset (m_select_back_o sp)"

lemma select_pick_mset:
  assumes "sm_inv (m_domain (m_statis sp))"
  shows "picked (select_pick sp) = picked sp + mset (filter (\<lambda>u. selectable sp (ui_domain u)) (pooled sp))"
proof -
  let ?dm = "m_domain (m_statis sp)" let ?sm = "file_pools sp"
  note dist = sm_inv_distinct [OF assms]
  let ?ds = "prio_domains ?dm @ ord_domains ?dm"
  have sel: "d \<in> set ?ds \<longleftrightarrow> selectable sp d" for d
    using set_prio_ord [OF dist] by (auto simp: selectable_def split: option.splits)
  have mem: "d \<in> set ?ds \<Longrightarrow> d \<in> fst ` set ?dm" for d
    by (force simp: prio_domains_def ord_domains_def)
  have "mset (concat (map (domain_urls ?sm) ?ds)) =
        mset (concat (map (\<lambda>d. filter (\<lambda>u. ui_domain u = d) (pooled sp)) ?ds))"
    using mem by (intro arg_cong [of _ _ mset] arg_cong [of _ _ concat] map_cong) (simp_all add: file_pools_domain)
  also have "\<dots> = mset (filter (\<lambda>u. selectable sp (ui_domain u)) (pooled sp))"
    by (simp only: mset_concat_filter [OF distinct_prio_ord [OF dist]] sel)
  finally have urls: "mset (concat (map (domain_urls ?sm) ?ds)) =
    mset (filter (\<lambda>u. selectable sp (ui_domain u)) (pooled sp))" .
  let ?conf = "m_spider_conf sp"
  let ?num = "select_nums_per_time ?conf * priority_quota ?conf sdiv 10"
  define st where "st = fold (pick_prio (cate_share ?conf) ?num
      (int (length (m_url_queue (mp_cpq sp)) + length (m_url_queue (mp_ipq sp)))) ?sm) (prio_domains ?dm)
    \<lparr>p_buffer = m_select_buffer sp, p_back = m_select_back_p sp, p_sites = m_sites sp,
     p_statis = m_statis (record_sizes sp), p_count = 0\<rparr>"
  have st: "mset (p_buffer st) + mset (p_back st) =
      mset (m_select_buffer sp) + mset (m_select_back_p sp) + mset (concat (map (domain_urls ?sm) (prio_domains ?dm)))"
    unfolding st_def by (subst fold_pick_mset [OF pick_prio_mset]) simp
  obtain share num links where so:
    "picked (select_pick sp) = mset (p_back st) +
       (let so = fold (pick_ord share num links ?sm) (ord_domains ?dm) (st\<lparr>p_back := m_select_back_o sp\<rparr>)
        in mset (p_buffer so) + mset (p_back so))"
  proof
    show "picked (select_pick sp) = mset (p_back st) +
       (let so = fold (pick_ord (cate_share ?conf)
            (if p_count st < ?num then select_nums_per_time ?conf - ?num + ?num - p_count st
             else select_nums_per_time ?conf - ?num)
            (int (length (m_url_queue (mp_coq sp)) + length (m_url_queue (mp_ioq sp)))) ?sm)
          (ord_domains ?dm) (st\<lparr>p_back := m_select_back_o sp\<rparr>)
        in mset (p_buffer so) + mset (p_back so))"
      by (simp add: select_pick_def picked_def Let_def st_def drain_pools_def record_sizes_def)
  qed
  show ?thesis
    using st unfolding so Let_def fold_pick_mset [OF pick_ord_mset] urls [symmetric]
    by (simp add: picked_def ac_simps)
qed

section \<open>Small domains\<close>

text \<open>Every quota is at least ten: a domain with at most ten URLs is taken whole.\<close>

lemma scan_both_small:
  "0 \<le> c \<Longrightarrow> 0 \<le> i \<Longrightarrow> c + i + int (length us) \<le> 10 \<Longrightarrow> 10 \<le> qc \<Longrightarrow> 10 \<le> qi \<Longrightarrow>
   \<exists>c' i'. scan_both ct qc qi c i us = (us, [], c', i')"
proof (induction us arbitrary: c i)
  case (Cons u us)
  obtain c1 i1 where "scan_both ct qc qi (c + 1) i us = (us, [], c1, i1)" using Cons.IH [of "c + 1" i] Cons.prems by auto
  moreover obtain c2 i2 where "scan_both ct qc qi c (i + 1) us = (us, [], c2, i2)" using Cons.IH [of c "i + 1"] Cons.prems by auto
  ultimately show ?case using Cons.prems by simp
qed simp

lemma pick_domain_small:
  assumes "length us \<le> 10" "10 \<le> qc" "10 \<le> qi"
  shows "p_back (pick_domain ct it slots qc qi d us st) = p_back st"
proof -
  obtain c i where "scan_both ct qc qi 0 0 us = (us, [], c, i)"
    using scan_both_small [of 0 0 us qc qi ct] assms by auto
  then show ?thesis by (simp add: pick_domain_def)
qed

lemma set_take_back: "take_back n buf back it ct = (buf', back', it', ct') \<Longrightarrow> set back' \<subseteq> set back"
  by (induction n buf "back" it ct rule: take_back.induct)
    (force simp: Let_def dest: in_set_butlastD split: if_splits)+

lemma set_scan_rest: "scan_rest flag m n us = (t, b, r, n') \<Longrightarrow> set b \<union> set r \<subseteq> set us"
  by (drule scan_rest_mset, drule arg_cong [of _ _ set_mset]) auto

lemma pick_domain_back:
  "set (p_back (pick_domain ct it slots qc qi d us st)) \<subseteq> set (p_back st) \<union> set us"
proof -
  obtain got rest c i where sb: "scan_both ct qc qi 0 0 us = (got, rest, c, i)" by (metis prod_cases4)
  have us: "set rest \<subseteq> set us" using scan_both_split [OF sb] by auto
  show ?thesis
  proof (cases "rest = []")
    case True
    with sb show ?thesis by (simp add: pick_domain_def)
  next
    case False
    define flag where "flag = (if c < qc then ct else it)"
    define m where "m = (if c < qc then qc else qi)"
    define n0 where "n0 = (if c < qc then c else i)"
    obtain more aside tail n where sr: "scan_rest flag m n0 rest = (more, aside, tail, n)"
      by (metis prod_cases4)
    have "set aside \<union> set tail \<subseteq> set us" using set_scan_rest [OF sr] us by blast
    then show ?thesis
      using sb sr False
      by (auto simp: pick_domain_def Let_def flag_def m_def n0_def split: prod.splits dest!: set_take_back) blast+
  qed
qed

lemma fold_pick_small:
  assumes "\<And>h st. h \<in> set hs \<Longrightarrow> \<forall>u \<in> set (p_back st). ui_domain u \<noteq> d \<Longrightarrow> \<forall>u \<in> set (p_back (f h st)). ui_domain u \<noteq> d"
  shows "\<forall>u \<in> set (p_back st). ui_domain u \<noteq> d \<Longrightarrow> \<forall>u \<in> set (p_back (fold f hs st)). ui_domain u \<noteq> d"
  using assms
proof (induction hs arbitrary: st)
  case (Cons h hs)
  have "\<forall>u \<in> set (p_back (f h st)). ui_domain u \<noteq> d" using Cons.prems(1) by (rule Cons.prems(2) [rotated]) simp
  then have "\<forall>u \<in> set (p_back (fold f hs (f h st))). ui_domain u \<noteq> d"
    by (rule Cons.IH) (rule Cons.prems(2); simp)
  then show ?case by simp
qed simp

lemma pick_keeps_small:
  assumes "length (filter (\<lambda>u. ui_domain u = d) (pooled sp)) \<le> 10" "\<forall>u \<in> set (p_back st). ui_domain u \<noteq> d"
  shows "\<forall>u \<in> set (p_back (pick_prio share num k (file_pools sp) h st)). ui_domain u \<noteq> d"
    and "\<forall>u \<in> set (p_back (pick_ord share num k (file_pools sp) h st)). ui_domain u \<noteq> d"
proof -
  let ?us = "domain_urls (file_pools sp) h"
  have q: "10 \<le> fst (quotas share num (length ?us) k)" "10 \<le> snd (quotas share num (length ?us) k)"
    using quotas_at_least_10 by auto
  have kept: "\<forall>u \<in> set (p_back (pick_domain ct it slots qc qi h ?us st)). ui_domain u \<noteq> d"
    if "10 \<le> qc" "10 \<le> qi" for ct it slots qc qi
  proof (cases "h = d")
    case True
    then have "length ?us \<le> 10" using assms(1) by (simp add: file_pools_domain)
    with pick_domain_small that assms(2) show ?thesis by simp
  next
    case False
    then have "\<forall>u \<in> set ?us. ui_domain u \<noteq> d" by (auto simp: file_pools_domain)
    with pick_domain_back [of ct it slots qc qi h ?us st] assms(2) show ?thesis by blast
  qed
  show "\<forall>u \<in> set (p_back (pick_prio share num k (file_pools sp) h st)). ui_domain u \<noteq> d"
    and "\<forall>u \<in> set (p_back (pick_ord share num k (file_pools sp) h st)). ui_domain u \<noteq> d"
    using kept q by (simp_all add: pick_prio_def pick_ord_def Let_def split: prod.split)
qed

lemma select_pick_small:
  assumes "length (filter (\<lambda>u. ui_domain u = d) (pooled sp)) \<le> 10"
    and "\<forall>u \<in> set (m_select_back_o sp) \<union> set (m_select_back_p sp). ui_domain u \<noteq> d"
  shows "\<forall>u \<in> set (m_select_back_o (select_pick sp)) \<union> set (m_select_back_p (select_pick sp)). ui_domain u \<noteq> d"
proof -
  have f: "\<forall>u \<in> set (p_back st). ui_domain u \<noteq> d \<Longrightarrow>
      \<forall>u \<in> set (p_back (fold (pick_prio share num k (file_pools sp)) hs st)). ui_domain u \<noteq> d"
    "\<forall>u \<in> set (p_back st). ui_domain u \<noteq> d \<Longrightarrow>
      \<forall>u \<in> set (p_back (fold (pick_ord share num k (file_pools sp)) hs st)). ui_domain u \<noteq> d"
    for share num k hs st
    by (rule fold_pick_small; use pick_keeps_small [OF assms(1)] in blast)+
  have "m_select_back_o (drain_pools (record_sizes sp)) = m_select_back_o sp"
    "m_select_back_p (drain_pools (record_sizes sp)) = m_select_back_p sp"
    by (simp_all add: drain_pools_def record_sizes_def)
  then show ?thesis
    using assms(2) by (simp add: select_pick_def Let_def ball_Un split del: if_split) (intro conjI f; simp)
qed

section \<open>What a selection does to the spider\<close>

lemma select_pick_frame:
  "m_spider_conf (select_pick sp) = m_spider_conf sp"
  "mp_selected_queue (select_pick sp) = mp_selected_queue sp"
  "m_select_rounds (select_pick sp) = m_select_rounds sp"
  "mp_cpq (select_pick sp) = (mp_cpq sp)\<lparr>m_url_queue := []\<rparr>"
  "mp_ipq (select_pick sp) = (mp_ipq sp)\<lparr>m_url_queue := []\<rparr>"
  "mp_coq (select_pick sp) = (mp_coq sp)\<lparr>m_url_queue := []\<rparr>"
  "mp_ioq (select_pick sp) = (mp_ioq sp)\<lparr>m_url_queue := []\<rparr>"
  by (simp_all add: select_pick_def Let_def drain_pools_def record_sizes_def)

lemma select_url_cases:
  assumes "select_url now shuffle drains sp = Some (rc, sp')"
  obtains stat where "rc = - 1" "sp' = (select_pick sp)\<lparr>m_statis := stat,
      mp_selected_queue := sq_clear (mp_selected_queue sp), m_select_rounds := 0\<rparr>"
  | stat where "rc = 0" "sp' = (select_pick sp)\<lparr>m_statis := stat,
      m_select_buffer := shuffle (m_select_buffer (select_pick sp))\<rparr>"
  using assms by (auto simp: select_url_def Let_def select_pick_frame split: option.splits if_splits)

lemma pooled_select_pick: "pooled (select_pick sp) = []"
  by (simp add: pooled_def select_pick_frame)

section \<open>What an insertion does to the pools and the queue\<close>

lemma fold_put_back_o:
  "mp_coq (fold put_back_o us sp) = fold add_to_que (filter (\<lambda>u. ui_type u = OCATE) us) (mp_coq sp)"
  "mp_ioq (fold put_back_o us sp) = fold add_to_que (filter (\<lambda>u. ui_type u = OITEM) us) (mp_ioq sp)"
  "mp_cpq (fold put_back_o us sp) = mp_cpq sp" "mp_ipq (fold put_back_o us sp) = mp_ipq sp"
  "m_select_back_p (fold put_back_o us sp) = m_select_back_p sp"
  "m_select_buffer (fold put_back_o us sp) = m_select_buffer sp"
  "mp_selected_queue (fold put_back_o us sp) = mp_selected_queue sp"
  by (induction us arbitrary: sp) (auto simp: put_back_o_def)

lemma fold_put_back_p:
  "mp_cpq (fold put_back_p us sp) = fold add_to_que (filter (\<lambda>u. ui_type u = PCATE) us) (mp_cpq sp)"
  "mp_ipq (fold put_back_p us sp) = fold add_to_que (filter (\<lambda>u. ui_type u = PITEM) us) (mp_ipq sp)"
  "mp_coq (fold put_back_p us sp) = mp_coq sp" "mp_ioq (fold put_back_p us sp) = mp_ioq sp"
  "m_select_buffer (fold put_back_p us sp) = m_select_buffer sp"
  "mp_selected_queue (fold put_back_p us sp) = mp_selected_queue sp"
  by (induction us arbitrary: sp) (auto simp: put_back_p_def)

lemma insert_url_cases:
  assumes "insert_url env busy sp = Some (rc, sp')"
  obtains ips sites q where "push_selected busy 0 (m_select_buffer sp) (mp_selected_queue sp) = Some q"
    "rc = 0"
    "sp' = (fold put_back_p (m_select_back_p sp) (fold put_back_o (m_select_back_o sp) sp))
       \<lparr>m_dns_client := ips, m_sites := sites, m_select_back_o := [], m_select_back_p := [],
        mp_selected_queue := q, m_select_buffer := []\<rparr>"
  using assms by (auto simp: insert_url_def Let_def fold_put_back_o fold_put_back_p bind_eq_Some_conv)

text \<open>A thread that only takes from the front of the selected queue.\<close>

definition only_pops :: "(nat \<Rightarrow> CSelectedQueue \<Rightarrow> CSelectedQueue) \<Rightarrow> bool" where
  "only_pops busy \<longleftrightarrow> (\<forall>n q. sq_inv q \<longrightarrow>
     sq_inv (busy n q) \<and> (\<exists>k. m_queue (busy n q) = drop k (m_queue q)))"

lemma push_selected_order:
  assumes "only_pops busy" "sq_inv q" "push_selected busy n us q = Some q'"
  shows "sq_inv q' \<and> (\<exists>k. m_queue q' = drop k (m_queue q @ map sq_item us))"
  using assms(2,3)
proof (induction us arbitrary: n q)
  case Nil
  then show ?case by (auto intro: exI [of _ 0])
next
  case (Cons u us)
  let ?b = "busy n q"
  from assms(1) Cons.prems obtain k where b: "sq_inv ?b" "m_queue ?b = drop k (m_queue q)"
    unfolding only_pops_def by blast
  from Cons.prems obtain q1 where p: "sq_push (sq_item u) ?b = (True, q1)"
      "push_selected busy (Suc n) us q1 = Some q'"
    by (auto split: prod.splits bool.splits)
  have q1: "sq_inv q1" "m_queue q1 = m_queue ?b @ [sq_item u]"
    using sq.push_ok [OF b(1), of "sq_item u"] p(1) sq.push_accepts [OF b(1), of "sq_item u"]
      sq.push_content [OF b(1), of "sq_item u"] by auto
  obtain j where j: "sq_inv q'" "m_queue q' = drop j (m_queue q1 @ map sq_item us)"
    using Cons.IH [OF q1(1) p(2)] by blast
  show ?case
  proof (cases "k \<le> length (m_queue q)")
    case True
    then have e: "m_queue q1 @ map sq_item us = drop k (m_queue q @ map sq_item (u # us))"
      using q1(2) b(2) by simp
    then have "m_queue q' = drop (j + k) (m_queue q @ map sq_item (u # us))"
      using j(2) by (simp only: e drop_drop)
    with j(1) show ?thesis by blast
  next
    case False
    then have e: "m_queue q1 @ map sq_item us = drop (length (m_queue q)) (m_queue q @ map sq_item (u # us))"
      using q1(2) b(2) by simp
    then have "m_queue q' = drop (j + length (m_queue q)) (m_queue q @ map sq_item (u # us))"
      using j(2) by (simp only: e drop_drop)
    with j(1) show ?thesis by blast
  qed
qed

lemma push_selected_room:
  assumes "sq_inv q" "int (length (m_queue q) + length us) \<le> m_size q"
  shows "\<exists>q'. push_selected (\<lambda>n q. q) n us q = Some q' \<and> m_queue q' = m_queue q @ map sq_item us \<and> sq_inv q'"
  using assms
proof (induction us arbitrary: n q)
  case (Cons u us)
  have cnt: "m_count q = int (length (m_queue q))" and lt: "m_count q < m_size q"
    using Cons.prems by (auto simp: sq_inv_def)
  let ?q1 = "q\<lparr>m_count := m_count q + 1, m_queue := m_queue q @ [sq_item u]\<rparr>"
  have p: "sq_push (sq_item u) q = (True, ?q1)" using lt by (simp add: sq_push_def)
  have inv: "sq_inv ?q1" and room: "int (length (m_queue ?q1) + length us) \<le> m_size ?q1"
    using Cons.prems cnt lt by (auto simp: sq_inv_def)
  from Cons.IH [OF inv room, of "Suc n"] show ?case by (simp add: p)
qed simp

lemma resolve_sites_no_socket:
  "length (cstr (dns_host conf)) < 32 \<Longrightarrow> \<exists>r. resolve_sites conf (\<lambda>_. no_socket) ss m = Some r"
proof (induction ss arbitrary: m)
  case (Cons s ss)
  have "\<exists>ip m'. get_site_ip conf no_socket (cstr (fst s)) m = Some (ip, m')"
    using no_socket_no_ip [OF Cons.prems] by (cases "m (cstr (fst s))") (auto simp: get_site_ip_def get_ip_hit)
  then obtain ip m' where "get_site_ip conf no_socket (cstr (fst s)) m = Some (ip, m')" by blast
  moreover obtain r where "resolve_sites conf (\<lambda>_. no_socket) ss m' = Some r" using Cons by blast
  ultimately show ?case by (cases s; cases r) simp
qed simp

lemma insert_url_no_socket:
  assumes "length (cstr (dns_host (m_spider_conf sp))) < 32" "sq_inv (mp_selected_queue sp)"
    and "int (length (m_queue (mp_selected_queue sp)) + length (m_select_buffer sp)) \<le> m_size (mp_selected_queue sp)"
  shows "\<exists>sp'. insert_url (\<lambda>_. no_socket) (\<lambda>_ q. q) sp = Some (0, sp')"
proof -
  let ?sp1 = "fold put_back_p (m_select_back_p sp) (fold put_back_o (m_select_back_o sp) sp)"
  have "m_spider_conf (fold put_back_o us s) = m_spider_conf s"
    "m_spider_conf (fold put_back_p us s) = m_spider_conf s" for us s
    by (induction us arbitrary: s) (simp_all add: put_back_o_def put_back_p_def)
  then have "length (cstr (dns_host (m_spider_conf ?sp1))) < 32" using assms(1) by simp
  from resolve_sites_no_socket [OF this, of "m_sites ?sp1" "clear_map (m_dns_client ?sp1)"]
    push_selected_room [OF assms(2,3), of 0]
  show ?thesis by (fastforce simp: insert_url_def Let_def fold_put_back_o fold_put_back_p)
qed

text \<open>The URLs that \<open>insert_url\<close> puts back into no pool.\<close>

definition forgotten :: "CSpider \<Rightarrow> UrlInfo list" where
  "forgotten sp = filter (\<lambda>u. ui_type u \<noteq> OCATE \<and> ui_type u \<noteq> OITEM) (m_select_back_o sp) @
     filter (\<lambda>u. ui_type u \<noteq> PCATE \<and> ui_type u \<noteq> PITEM) (m_select_back_p sp)"

text \<open>URLs of a seed domain that wait in the ordinary item pool, when the priority pools are empty:
  the quotas are (10, 10), and nothing of the loop's category type is found.\<close>

lemma scan_both_items:
  "\<forall>u \<in> set us. ui_type u \<noteq> ct \<Longrightarrow> 0 \<le> i \<Longrightarrow> i \<le> 10 \<Longrightarrow> 
   scan_both ct 10 10 0 i us = (take (nat (10 - i)) us, drop (nat (10 - i)) us, 0, min 10 (i + int (length us)))"
proof (induction us arbitrary: i)
  case (Cons u us)
  show ?case
  proof (cases "i = 10")
    case False
    then have "nat (10 - i) = Suc (nat (10 - (i + 1)))" using Cons.prems by simp
    with Cons.IH [of "i + 1"] Cons.prems False show ?thesis by simp
  qed simp
qed simp

lemma scan_rest_none:
  "\<forall>u \<in> set us. ui_type u \<noteq> flag \<Longrightarrow> n < m \<Longrightarrow> scan_rest flag m n us = ([], us, [], n)"
  by (induction us) auto

lemma pick_domain_items:
  assumes "\<forall>u \<in> set us. ui_type u = OITEM" "10 < length us"
  shows "p_buffer (pick_domain PCATE PITEM 20 10 10 d us st) = p_buffer st @ take 10 us"
    and "p_back (pick_domain PCATE PITEM 20 10 10 d us st) = p_back st @ drop 10 us"
proof -
  have sb: "scan_both PCATE 10 10 0 0 us = (take 10 us, drop 10 us, 0, 10)"
    using scan_both_items [of us PCATE 0] assms by simp
  have sr: "scan_rest PCATE 10 0 (drop 10 us) = ([], drop 10 us, [], 0)"
    using assms by (intro scan_rest_none) (auto dest: in_set_dropD)
  show "p_buffer (pick_domain PCATE PITEM 20 10 10 d us st) = p_buffer st @ take 10 us"
    and "p_back (pick_domain PCATE PITEM 20 10 10 d us st) = p_back st @ drop 10 us"
    using assms sb sr by (simp_all add: pick_domain_def Let_def spider_defs)
qed

lemma seed_only_round:
  assumes "m_domain (m_statis sp) = [(d, a)]" "isSeed a = 1" "isShield a = 0"
    and "m_url_queue (mp_cpq sp) = []" "m_url_queue (mp_ipq sp) = []" "m_url_queue (mp_coq sp) = []"
    and "\<forall>u \<in> set (m_url_queue (mp_ioq sp)). ui_domain u = d" "10 < length (m_url_queue (mp_ioq sp))"
    and "m_select_back_o sp = []" "m_select_back_p sp = []"
  shows "m_select_back_p (select_pick sp) = drop 10 (map (tag OITEM) (m_url_queue (mp_ioq sp)))"
    and "m_select_back_o (select_pick sp) = []"
proof -
  let ?us = "map (tag OITEM) (m_url_queue (mp_ioq sp))"
  have us: "domain_urls (file_pools sp) d = ?us"
    using assms by (simp add: file_pools_domain pooled_def filter_id_conv)
  have q: "quotas (cate_share conf) num sz 0 = (10, 10)" for conf num sz
    by (simp add: quotas_def cate_quota_def item_quota_def at_least_10_def)
  have ds: "ord_domains [(d, a)] = []" "prio_domains [(d, a)] = [d]"
    using assms(2,3) by (simp_all add: ord_domains_def prio_domains_def)
  show "m_select_back_p (select_pick sp) = drop 10 ?us" "m_select_back_o (select_pick sp) = []"
    using assms pick_domain_items [of ?us d] q
    by (simp_all add: select_pick_def Let_def ds us pick_prio_def drain_pools_def record_sizes_def tag_def)
qed

text \<open>What waits in the ordinary pools for the domain \<open>d\<close>, by the type that \<open>select_url\<close> gives it.\<close>

definition ordinary_of :: "string \<Rightarrow> UrlInfo list \<Rightarrow> UrlInfo multiset" where
  "ordinary_of d us = mset (filter (\<lambda>u. ui_domain u = d \<and> (ui_type u = OITEM \<or> ui_type u = OCATE)) us)"

lemma ordinary_of_append [simp]: "ordinary_of d (us @ vs) = ordinary_of d us + ordinary_of d vs"
  by (simp add: ordinary_of_def)

lemma ordinary_of_filter:
  "filter_mset (\<lambda>u. ui_domain u = d \<and> (ui_type u = OITEM \<or> ui_type u = OCATE)) (mset us) = ordinary_of d us"
  by (simp add: ordinary_of_def)

lemma ordinary_of_none: "\<forall>u \<in> set us. ui_domain u = d \<longrightarrow> ui_type u \<noteq> OITEM \<and> ui_type u \<noteq> OCATE \<Longrightarrow> ordinary_of d us = {#}"
  by (auto simp: ordinary_of_def filter_empty_conv)

lemma ordinary_of_mset: "mset us = mset vs \<Longrightarrow> ordinary_of d us = ordinary_of d vs"
  by (simp add: ordinary_of_def)

lemma seed_not_back_o:
  assumes "sm_inv (m_domain (m_statis sp))" "map_of (m_domain (m_statis sp)) d = Some a" "isSeed a = 1"
    and "\<forall>u \<in> set (m_select_back_o sp). ui_domain u \<noteq> d"
  shows "\<forall>u \<in> set (m_select_back_o (select_pick sp)). ui_domain u \<noteq> d"
proof -
  have nd: "d \<notin> set (ord_domains (m_domain (m_statis sp)))"
    using set_prio_ord(2) [OF sm_inv_distinct [OF assms(1)], of d] assms(2,3) by simp
  have step: "\<forall>u \<in> set (p_back (pick_ord share num k (file_pools sp) h st)). ui_domain u \<noteq> d"
    if "h \<in> set (ord_domains (m_domain (m_statis sp)))" "\<forall>u \<in> set (p_back st). ui_domain u \<noteq> d" for share num k h st
  proof -
    have "\<forall>u \<in> set (domain_urls (file_pools sp) h). ui_domain u \<noteq> d"
      using that(1) nd by (auto simp: file_pools_domain)
    then have "\<forall>u \<in> set (p_back (pick_domain ct it slots qc qi h (domain_urls (file_pools sp) h) st)). ui_domain u \<noteq> d"
      for ct it slots qc qi
      using pick_domain_back [of ct it slots qc qi h "domain_urls (file_pools sp) h" st] that(2) by blast
    then show ?thesis by (simp add: pick_ord_def Let_def split: prod.split)
  qed
  have all: "\<forall>u \<in> set (p_back (fold (pick_ord share num k (file_pools sp)) (ord_domains (m_domain (m_statis sp))) st)).
      ui_domain u \<noteq> d" if "\<forall>u \<in> set (p_back st). ui_domain u \<noteq> d" for share num k st
    using that by (rule fold_pick_small [rotated]) (rule step)
  show ?thesis
    using assms(4) by (simp add: select_pick_def Let_def split del: if_split) (rule all; simp add: drain_pools_def record_sizes_def)
qed

section \<open>Properties\<close>

text \<open>A small spider for the witnesses: one seed domain, \<open>n\<close> of its URLs in the ordinary item pool.\<close>

definition sample_url :: "nat \<Rightarrow> UrlInfo" where
  "sample_url n = \<lparr>ui_url = ''http://a.b/'' @ dec_digits n, ui_last_crawl_time = 0, ui_domain = ''a.b'',
     ui_site = ''a.b'', ui_type = 0\<rparr>"

definition sample_spider :: "nat \<Rightarrow> CSpider" where
  "sample_spider n = (spider_new conf_zeroed)
     \<lparr>m_statis := statis_new\<lparr>m_domain := [(''a.b'', \<lparr>isShield = 0, isSeed = 1\<rparr>)], m_fp := Some []\<rparr>,
      mp_selected_queue := snd (sq_init 0 20 sq_new),
      mp_ioq := pool_new\<lparr>m_url_queue := map sample_url [0..<n]\<rparr>\<rparr>"

text \<open>C3: A selection, whether it returns 0 or -1, loses no URL of a domain it knows as ordinary or seed and
  not shielded: afterwards they are in the buffer or in one of the two lists kept aside, each as
  often as in the pools. URLs of every other domain are dropped, and the four pools end up empty.\<close>

theorem select_url_conserves:
  assumes "sm_inv (m_domain (m_statis sp))" and "\<And>xs. mset (shuffle xs) = mset xs"
    and "select_url now shuffle drains sp = Some (rc, sp')"
  shows "picked sp' = picked sp + mset (filter (\<lambda>u. selectable sp (ui_domain u)) (pooled sp)) \<and> pooled sp' = []"
proof -
  have "picked sp' = picked (select_pick sp) \<and> pooled sp' = pooled (select_pick sp)"
    using assms(2) by (rule_tac select_url_cases [OF assms(3)]) (simp_all add: picked_def pooled_def)
  with select_pick_mset [OF assms(1)] pooled_select_pick show ?thesis by simp
qed

lemma select_url_sample:
  "\<exists>sp'. select_url ''now'' id True (sample_spider n) = Some (0, sp')"
proof -
  have fp: "m_fp (p_statis (pick_domain ct it slots qc qi d us st)) = m_fp (p_statis st)"
    for ct it slots qc qi d us and st :: picking
    by (simp add: pick_domain_def Let_def spider_defs split: prod.split)
  have "m_fp (p_statis (fold (pick_prio share num k sm) ds st)) = m_fp (p_statis st)"
    "m_fp (p_statis (fold (pick_ord share num k sm) ds st)) = m_fp (p_statis st)"
    for share num k sm ds and st :: picking
    by (induction ds arbitrary: st) (simp_all add: pick_prio_def pick_ord_def fp Let_def split: prod.split)
  then have "m_fp (m_statis (select_pick (sample_spider n))) = Some []"
    by (simp add: select_pick_def Let_def record_sizes_def drain_pools_def sample_spider_def)
  moreover have "m_select_rounds (select_pick (sample_spider n)) = 0"
    by (simp add: select_pick_frame sample_spider_def spider_new_def)
  ultimately show ?thesis by (simp add: select_url_def set_statis_to_file_def Let_def)
qed

lemma select_url_conserves_witness:
  "\<exists>sp'. select_url ''now'' id True (sample_spider 3) = Some (0, sp') \<and> size (picked sp') = 3"
proof -
  obtain sp' where sel: "select_url ''now'' id True (sample_spider 3) = Some (0, sp')"
    using select_url_sample by blast
  have "picked sp' = picked (sample_spider 3) +
      mset (filter (\<lambda>u. selectable (sample_spider 3) (ui_domain u)) (pooled (sample_spider 3))) \<and> pooled sp' = []"
    by (rule select_url_conserves [OF _ _ sel])
      (simp_all add: sample_spider_def spider_new_def sm_inv_def)
  then have "size (picked sp') = 3"
    by (simp add: sample_spider_def spider_new_def picked_def pooled_def selectable_def pool_new_def
        tag_def sample_url_def upt_rec)
  with sel show ?thesis by blast
qed

text \<open>\<open>insert_url\<close> puts a URL kept aside back into the pool of its type and only there: the ordinary
  list into the ordinary pools, the priority list into the priority pools, in order and behind what
  the pools hold. The lists and the buffer end up empty.\<close>

theorem insert_url_pools:
  assumes "insert_url env busy sp = Some (rc, sp')"
  shows "rc = 0 \<and> m_select_buffer sp' = [] \<and> m_select_back_o sp' = [] \<and> m_select_back_p sp' = [] \<and>
    mp_coq sp' = fold add_to_que (filter (\<lambda>u. ui_type u = OCATE) (m_select_back_o sp)) (mp_coq sp) \<and>
    mp_ioq sp' = fold add_to_que (filter (\<lambda>u. ui_type u = OITEM) (m_select_back_o sp)) (mp_ioq sp) \<and>
    mp_cpq sp' = fold add_to_que (filter (\<lambda>u. ui_type u = PCATE) (m_select_back_p sp)) (mp_cpq sp) \<and>
    mp_ipq sp' = fold add_to_que (filter (\<lambda>u. ui_type u = PITEM) (m_select_back_p sp)) (mp_ipq sp)"
  by (rule insert_url_cases [OF assms]) (simp add: fold_put_back_o fold_put_back_p)

lemma insert_url_pools_witness:
  "\<exists>sp'. insert_url (\<lambda>_. no_socket) (\<lambda>_ q. q) ((sample_spider 0)\<lparr>m_select_back_o := [sample_url 7]\<rparr>) = Some (0, sp') \<and>
     m_url_queue (mp_ioq sp') = [sample_url 7]"
proof -
  let ?sp = "(sample_spider 0)\<lparr>m_select_back_o := [sample_url 7]\<rparr>"
  obtain sp' where i: "insert_url (\<lambda>_. no_socket) (\<lambda>_ q. q) ?sp = Some (0, sp')"
    by (simp add: insert_url_def sample_spider_def spider_new_def sample_url_def put_back_o_def)
  from insert_url_pools [OF i] have "m_url_queue (mp_ioq sp') = [sample_url 7]"
    by (simp add: sample_spider_def spider_new_def sample_url_def fold_add_to_que_queue pool_new_def add_to_que_queue)
  with i show ?thesis by blast
qed

text \<open>C28: The buffer reaches the selected queue in its order: while the threads at the other end only take
  items from the front, the queue holds at the end what is left of its old content followed by one
  item per URL of the buffer, with no item lost, added or overtaken.\<close>

theorem insert_url_order:
  assumes "only_pops busy" "sq_inv (mp_selected_queue sp)" "insert_url env busy sp = Some (rc, sp')"
  shows "sq_inv (mp_selected_queue sp') \<and>
    (\<exists>k. m_queue (mp_selected_queue sp') =
         drop k (m_queue (mp_selected_queue sp) @ map sq_item (m_select_buffer sp)))"
  by (rule insert_url_cases [OF assms(3)]) (simp add: push_selected_order [OF assms(1,2)] del: drop_append)

lemma insert_url_order_witness:
  "\<exists>sp'. insert_url (\<lambda>_. no_socket) (\<lambda>_ q. q) ((sample_spider 0)\<lparr>m_select_buffer := [sample_url 7]\<rparr>) = Some (0, sp') \<and>
     sq_inv (mp_selected_queue sp')"
proof -
  let ?sp = "(sample_spider 0)\<lparr>m_select_buffer := [sample_url 7]\<rparr>"
  obtain sp' where i: "insert_url (\<lambda>_. no_socket) (\<lambda>_ q. q) ?sp = Some (0, sp')"
    by (simp add: insert_url_def sample_spider_def spider_new_def sq_push_def sq_init_def sq_new_def)
  have "only_pops (\<lambda>_ q. q)" unfolding only_pops_def by (auto intro: exI [of _ 0])
  moreover have "sq_inv (mp_selected_queue ?sp)"
    by (simp add: sample_spider_def sq_inv_init)
  ultimately have "sq_inv (mp_selected_queue sp')" using insert_url_order [OF _ _ i] by blast
  with i show ?thesis by blast
qed

text \<open>C25: A round forgets URLs of the seed domains: what waits in the ordinary pools for a seed domain
  (\<open>write_to_queue\<close> puts the links of ordinary pages there) is either selected in this very round or kept
  aside in the priority list with its ordinary type, and \<open>insert_url\<close> then puts it into no pool.
  None of it waits in any pool after the round, whatever the pools, the quotas and the other domains
  are; and the sets still know it, so that a later \<open>push_url\<close> refuses it.\<close>

theorem seed_items_are_forgotten:
  assumes "sm_inv (m_domain (m_statis sp))" and "\<And>xs. mset (shuffle xs) = mset xs"
    and "map_of (m_domain (m_statis sp)) d = Some a" "isSeed a = 1" "isShield a = 0"
    and "\<forall>u \<in> set (m_select_back_o sp) \<union> set (m_select_back_p sp). ui_domain u \<noteq> d"
    and "select_url now shuffle drains sp = Some (0, sp1)" "insert_url env busy sp1 = Some (0, sp2)"
  shows "ordinary_of d (m_select_buffer sp1) + ordinary_of d (forgotten sp1) =
      ordinary_of d (m_select_buffer sp) + ordinary_of d (pooled sp) \<and>
    ordinary_of d (pooled sp2) = {#} \<and>
    ordinary_of d (m_url_queue (mp_cpq sp2) @ m_url_queue (mp_ipq sp2)) = {#} \<and>
    m_url_set (mp_ioq sp2) = m_url_set (mp_ioq sp) \<and> m_url_set (mp_coq sp2) = m_url_set (mp_coq sp)"
proof -
  let ?s = "select_pick sp" let ?F = "filter_mset (\<lambda>u. ui_domain u = d \<and> (ui_type u = OITEM \<or> ui_type u = OCATE))"
  note aside_o = seed_not_back_o [OF assms(1,3,4)]
  have o0: "\<forall>u \<in> set (m_select_back_o ?s). ui_domain u \<noteq> d" by (rule aside_o) (use assms(6) in blast)
  have sp1: "mset (m_select_buffer sp1) = mset (m_select_buffer ?s)" "m_select_back_o sp1 = m_select_back_o ?s"
    "m_select_back_p sp1 = m_select_back_p ?s" "mp_ioq sp1 = (mp_ioq sp)\<lparr>m_url_queue := []\<rparr>"
    "mp_coq sp1 = (mp_coq sp)\<lparr>m_url_queue := []\<rparr>" "m_url_queue (mp_ipq sp1) = []" "m_url_queue (mp_cpq sp1) = []"
    using assms(2) by (rule_tac [!] select_url_cases [OF assms(7)]) (simp_all add: select_pick_frame)
  have "selectable sp d" using assms(3-5) by (simp add: selectable_def)
  then have pool: "?F (filter_mset (\<lambda>u. selectable sp (ui_domain u)) (mset (pooled sp))) = ?F (mset (pooled sp))"
    by (auto simp: filter_filter_mset intro!: filter_mset_cong)
  have none: "ordinary_of d (m_select_back_o ?s) = {#}" "ordinary_of d (m_select_back_o sp) = {#}"
    "ordinary_of d (m_select_back_p sp) = {#}"
    using o0 assms(6) by (auto intro: ordinary_of_none)
  have "?F (picked ?s) = ?F (picked sp) + ?F (mset (pooled sp))"
    unfolding select_pick_mset [OF assms(1)] by (simp add: pool)
  then have sum: "ordinary_of d (m_select_buffer sp1) + ordinary_of d (m_select_back_p sp1) =
      ordinary_of d (m_select_buffer sp) + ordinary_of d (pooled sp)"
    using none ordinary_of_mset [OF sp1(1)] by (simp add: picked_def ordinary_of_filter sp1)
  have "ordinary_of d (forgotten sp1) = ordinary_of d (m_select_back_p sp1)"
  proof -
    have "filter (\<lambda>u. ui_domain u = d \<and> (ui_type u = OITEM \<or> ui_type u = OCATE)) (forgotten sp1) =
        filter (\<lambda>u. ui_domain u = d \<and> (ui_type u = OITEM \<or> ui_type u = OCATE)) (m_select_back_p sp1)"
      using o0 by (auto simp: forgotten_def sp1 filter_empty_conv intro!: filter_cong)
    then show ?thesis by (simp add: ordinary_of_def)
  qed
  moreover have "ordinary_of d (pooled sp2) = {#} \<and>
    ordinary_of d (m_url_queue (mp_cpq sp2) @ m_url_queue (mp_ipq sp2)) = {#} \<and>
    m_url_set (mp_ioq sp2) = m_url_set (mp_ioq sp) \<and> m_url_set (mp_coq sp2) = m_url_set (mp_coq sp)"
    by (rule insert_url_cases [OF assms(8)])
      (use sp1 o0 in \<open>auto simp: fold_put_back_o fold_put_back_p pooled_def tag_def fold_add_to_que_queue fold_add_to_que_set
          intro!: ordinary_of_none\<close>, blast+)
  ultimately show ?thesis using sum by simp
qed

lemma seed_items_are_forgotten_witness:
  "\<exists>sp1 sp2. select_url ''now'' id True (sample_spider 12) = Some (0, sp1) \<and>
     insert_url (\<lambda>_. no_socket) (\<lambda>_ q. q) sp1 = Some (0, sp2) \<and>
     forgotten sp1 = [sample_url 10, sample_url 11] \<and> ordinary_of ''a.b'' (pooled sp2) = {#}"
proof -
  obtain sp1 where sel: "select_url ''now'' id True (sample_spider 12) = Some (0, sp1)"
    using select_url_sample by blast
  have "picked sp1 = picked (select_pick (sample_spider 12))"
    by (rule select_url_cases [OF sel]) (simp_all add: picked_def)
  also have "\<dots> = mset (map sample_url [0..<12])"
    by (subst select_pick_mset) (simp_all add: sample_spider_def spider_new_def sm_inv_def picked_def pooled_def
        selectable_def pool_new_def tag_def sample_url_def upt_rec)
  finally have "size (picked sp1) = 12" by simp
  then have "length (m_select_buffer sp1) \<le> 12" by (simp add: picked_def)
  moreover have "mp_selected_queue sp1 = snd (sq_init 0 20 sq_new)" "m_spider_conf sp1 = conf_zeroed"
    by (rule select_url_cases [OF sel]; simp add: select_pick_frame sample_spider_def spider_new_def)+
  ultimately obtain sp2 where ins: "insert_url (\<lambda>_. no_socket) (\<lambda>_ q. q) sp1 = Some (0, sp2)"
    using insert_url_no_socket [of sp1] by (auto simp: conf_zeroed_def cstr_def sq_inv_def sq_init_def sq_new_def)
  have o: "ordinary_of ''a.b'' (pooled sp2) = {#}"
    by (rule seed_items_are_forgotten [OF _ _ _ _ _ _ sel ins, THEN conjunct2, THEN conjunct1])
      (auto simp: sample_spider_def spider_new_def sm_inv_def)
  have "m_select_back_p (select_pick (sample_spider 12)) =
      drop 10 (map (tag OITEM) (m_url_queue (mp_ioq (sample_spider 12))))" "m_select_back_o (select_pick (sample_spider 12)) = []"
    by (rule seed_only_round [of _ "''a.b''" "\<lparr>isShield = 0, isSeed = 1\<rparr>"];
        auto simp: sample_spider_def spider_new_def pool_new_def sample_url_def)+
  then have "m_select_back_p sp1 = map sample_url [10..<12]" "m_select_back_o sp1 = []"
    by (rule_tac [!] select_url_cases [OF sel])
      (simp_all add: sample_spider_def tag_def sample_url_def drop_map)
  then have "forgotten sp1 = [sample_url 10, sample_url 11]"
    by (simp add: forgotten_def upt_rec sample_url_def)
  with sel ins o show ?thesis by blast
qed

text \<open>C7: No small domain is starved: a domain that is known, not shielded and has at most ten URLs in the four
  pools gets all of them selected in this very round, whatever the other domains hold and however the
  quotas come out, and none of its URLs is kept aside.\<close>

theorem small_domain_selected:
  assumes "sm_inv (m_domain (m_statis sp))" and "\<And>xs. mset (shuffle xs) = mset xs"
    and "select_url now shuffle drains sp = Some (rc, sp')" and "selectable sp d"
    and "length (filter (\<lambda>u. ui_domain u = d) (pooled sp)) \<le> 10"
    and "\<forall>u \<in> set (m_select_back_o sp) \<union> set (m_select_back_p sp). ui_domain u \<noteq> d"
  shows "filter_mset (\<lambda>u. ui_domain u = d) (mset (m_select_buffer sp')) =
      filter_mset (\<lambda>u. ui_domain u = d) (mset (m_select_buffer sp) + mset (pooled sp)) \<and>
    (\<forall>u \<in> set (m_select_back_o sp') \<union> set (m_select_back_p sp'). ui_domain u \<noteq> d)"
proof -
  let ?s = "select_pick sp" let ?F = "filter_mset (\<lambda>u. ui_domain u = d)"
  have kept: "\<forall>u \<in> set (m_select_back_o ?s) \<union> set (m_select_back_p ?s). ui_domain u \<noteq> d"
    by (rule select_pick_small [OF assms(5,6)])
  have sp': "mset (m_select_buffer sp') = mset (m_select_buffer ?s)"
    "m_select_back_o sp' = m_select_back_o ?s" "m_select_back_p sp' = m_select_back_p ?s"
    using assms(2) by (rule_tac [!] select_url_cases [OF assms(3)]) simp_all
  have none: "?F (mset (m_select_back_o ?s)) = {#}" "?F (mset (m_select_back_p ?s)) = {#}"
    "?F (mset (m_select_back_o sp)) = {#}" "?F (mset (m_select_back_p sp)) = {#}"
    using kept assms(6) by (auto simp: multiset_eq_iff count_eq_zero_iff)
  have pool: "?F (filter_mset (\<lambda>u. selectable sp (ui_domain u)) (mset (pooled sp))) = ?F (mset (pooled sp))"
    using assms(4) by (auto simp: filter_filter_mset intro!: filter_mset_cong)
  have "?F (picked ?s) = ?F (picked sp) + ?F (mset (pooled sp))"
    unfolding select_pick_mset [OF assms(1)] by (simp add: pool)
  then have "?F (mset (m_select_buffer ?s)) = ?F (mset (m_select_buffer sp) + mset (pooled sp))"
    by (simp add: picked_def none)
  with sp' kept show ?thesis by simp
qed

lemma small_domain_selected_witness:
  "\<exists>sp'. select_url ''now'' id True (sample_spider 3) = Some (0, sp') \<and>
     size (filter_mset (\<lambda>u. ui_domain u = ''a.b'') (mset (m_select_buffer sp'))) = 3"
proof -
  obtain sp' where sel: "select_url ''now'' id True (sample_spider 3) = Some (0, sp')"
    using select_url_sample by blast
  have "filter_mset (\<lambda>u. ui_domain u = ''a.b'') (mset (m_select_buffer sp')) =
      filter_mset (\<lambda>u. ui_domain u = ''a.b'') (mset (m_select_buffer (sample_spider 3)) + mset (pooled (sample_spider 3)))"
    by (rule small_domain_selected [OF _ _ sel, THEN conjunct1])
      (simp_all add: sample_spider_def spider_new_def sm_inv_def selectable_def pooled_def pool_new_def
        tag_def sample_url_def upt_rec)
  then have "size (filter_mset (\<lambda>u. ui_domain u = ''a.b'') (mset (m_select_buffer sp'))) = 3"
    by (simp add: sample_spider_def spider_new_def pooled_def pool_new_def tag_def sample_url_def upt_rec)
  with sel show ?thesis by blast
qed

end
