(* ===== verification/Spider_Load.thy ===== *)
theory Spider_Load
  imports Spider_State
begin

text \<open>
  What the spider reads between two rounds (spider.cpp): \<open>load_input_urls\<close>, \<open>load_stop_domain\<close>,
  \<open>load_seed\<close> and \<open>update_conf\<close>, which reloads what has changed on disk. \<open>ucUrl\<close> is not in the
  repository: \<open>uc s\<close> gives the URL, the site and the domain of \<open>s\<close>, or \<open>None\<close> when \<open>build\<close> fails.
\<close>

section \<open>Files\<close>

text \<open>The part of the disk the loaders use: texts that \<open>fopen(..., "r")\<close> can open, paths that can be
  opened for appending, and the change times that \<open>stat\<close> reports (\<open>None\<close> when it fails).\<close>

record disk =
  d_text :: "string \<rightharpoonup> string"
  d_append :: "string \<Rightarrow> bool"
  d_ctime :: "string \<rightharpoonup> int"

definition append_text :: "string \<Rightarrow> string \<Rightarrow> disk \<Rightarrow> disk" where
  "append_text path t d =
     d\<lparr>d_text := (d_text d)(path \<mapsto> (case d_text d path of None \<Rightarrow> [] | Some s \<Rightarrow> s) @ t)\<rparr>"

definition unlink :: "string \<Rightarrow> disk \<Rightarrow> disk" where
  "unlink path d = d\<lparr>d_text := (d_text d)(path := None), d_ctime := (d_ctime d)(path := None)\<rparr>"

definition get_change_time :: "disk \<Rightarrow> string \<Rightarrow> int" where
  "get_change_time d path = (case d_ctime d path of None \<Rightarrow> - 1 | Some t \<Rightarrow> t)"

text \<open>
  The texts that \<open>p\<close> points to, line by line. \<open>filter_headtail_blank\<close> is called with its default
  length of 5120 on a buffer of \<open>len\<close> bytes; \<open>around n\<close> is the memory below and above that buffer
  at the \<open>n\<close>-th line. \<open>None\<close>: a walk leaves the memory, or the loop does not end.
\<close>

type_synonym stack = "nat \<Rightarrow> string \<times> string"

fun filter_all :: "stack \<Rightarrow> nat \<Rightarrow> string list \<Rightarrow> string list option" where
  "filter_all around n [] = Some []"
| "filter_all around n (buf # bufs) =
     (case filtered_line 5120 (fst (around n)) (buf @ snd (around n)) of None \<Rightarrow> None
      | Some p \<Rightarrow> map_option ((#) p) (filter_all around (Suc n) bufs))"

definition file_lines :: "stack \<Rightarrow> CSpiderConf \<Rightarrow> string \<Rightarrow> string list option" where
  "file_lines around conf content =
     Option.bind (line_bufs (nat (max_url_len conf + 1)) (fopen_text content)) (filter_all around 0)"

section \<open>load_stop_domain\<close>

definition unshield :: "(string \<times> DomainAttr) list \<Rightarrow> (string \<times> DomainAttr) list" where
  "unshield m = map (\<lambda>(d, a). (d, a\<lparr>isShield := 0\<rparr>)) m"

definition stop_line :: "string \<Rightarrow> (string \<times> DomainAttr) list \<Rightarrow> (string \<times> DomainAttr) list" where
  "stop_line p m =
     (if p = [] then m
      else (case map_of m p of None \<Rightarrow> sm_put p \<lparr>isShield = 1, isSeed = 0\<rparr> m
            | Some a \<Rightarrow> sm_put p (a\<lparr>isShield := 1\<rparr>) m))"

definition with_domains :: "(string \<times> DomainAttr) list \<Rightarrow> CSpider \<Rightarrow> CSpider" where
  "with_domains m sp = sp\<lparr>m_statis := (m_statis sp)\<lparr>m_domain := m\<rparr>\<rparr>"

definition load_stop_domain :: "stack \<Rightarrow> disk \<Rightarrow> string \<Rightarrow> CSpider \<Rightarrow> (int \<times> CSpider) option" where
  "load_stop_domain around d path sp =
     (case d_text d path of None \<Rightarrow> Some (- 1, sp)
      | Some content \<Rightarrow>
          map_option (\<lambda>ps. (0, with_domains (fold stop_line ps (unshield (m_domain (m_statis sp)))) sp))
            (file_lines around (m_spider_conf sp) content))"

section \<open>load_seed\<close>

type_synonym url_parser = "string \<Rightarrow> (string \<times> string \<times> string) option"

text \<open>\<open>junk\<close> is the value of the field \<open>type\<close>, which the loaders leave unset.\<close>

definition url_info :: "int \<Rightarrow> string \<times> string \<times> string \<Rightarrow> UrlInfo" where
  "url_info junk parts = \<lparr>ui_url = fst parts, ui_last_crawl_time = 0, ui_domain = snd (snd parts),
     ui_site = fst (snd parts), ui_type = junk\<rparr>"

definition seed_domain :: "string \<Rightarrow> (string \<times> DomainAttr) list \<Rightarrow> (string \<times> DomainAttr) list" where
  "seed_domain host m =
     (case map_of m host of None \<Rightarrow> sm_put host \<lparr>isShield = 0, isSeed = 1\<rparr> m
      | Some a \<Rightarrow> if isSeed a = 0 then sm_put host (a\<lparr>isSeed := 1\<rparr>) m else m)"

text \<open>One turn of the loop: the spider and the text of the backup file.\<close>

definition seed_line :: "url_parser \<Rightarrow> int \<Rightarrow> string \<Rightarrow> CSpider \<times> string \<Rightarrow> CSpider \<times> string" where
  "seed_line uc junk p st =
     (if p = [] then st
      else (case uc p of None \<Rightarrow> st
            | Some parts \<Rightarrow>
                (let ui = url_info junk parts;
                     sp1 = (fst st)\<lparr>mp_cpq := push_url ui (mp_cpq (fst st))\<rparr>
                 in (with_domains (seed_domain (ui_domain ui) (m_domain (m_statis sp1))) sp1,
                     snd st @ p @ [LF]))))"

definition load_seed :: "url_parser \<Rightarrow> int \<Rightarrow> stack \<Rightarrow> disk \<Rightarrow> string \<Rightarrow> CSpider
    \<Rightarrow> (int \<times> CSpider \<times> disk) option" where
  "load_seed uc junk around d path sp =
     (let conf = m_spider_conf sp
      in case d_text d path of None \<Rightarrow> Some (- 1, sp, d)
         | Some content \<Rightarrow>
             if \<not> d_append d (seed_bak_path conf) then Some (- 1, sp, d)
             else map_option (\<lambda>ps.
                    (let (sp', bak) = fold (seed_line uc junk) ps (sp, [LF])
                     in (0, sp', unlink (seed_path conf) (append_text (seed_bak_path conf) bak d))))
                  (file_lines around conf content))"

section \<open>load_input_urls\<close>

definition INPUT_PATH :: string where "INPUT_PATH = ''input''"
definition CATE_LIST :: string where "CATE_LIST = ''cate.list''"

definition new_domain :: "string \<Rightarrow> CSpiderStatis \<Rightarrow> CSpiderStatis" where
  "new_domain host s =
     (case map_of (m_domain s) host of
        None \<Rightarrow> set_domain_item_select_num host 0 (set_domain_cate_select_num host 0
                  (set_domain_item_done_num host 0 (set_domain_cate_done_num host 0
                    (s\<lparr>m_domain := sm_put host \<lparr>isShield = 0, isSeed = 0\<rparr> (m_domain s)\<rparr>))))
      | Some _ \<Rightarrow> s)"

text \<open>One turn of the loop: the text up to the first tab is the URL. The count is of the URLs built.\<close>

definition cate_line :: "url_parser \<Rightarrow> int \<Rightarrow> string \<Rightarrow> CSpider \<times> int \<Rightarrow> CSpider \<times> int" where
  "cate_line uc junk p st =
     (if p = [] then st
      else (case uc (takeWhile (\<lambda>c. c \<noteq> TAB) p) of None \<Rightarrow> st
            | Some parts \<Rightarrow>
                (let ui = url_info junk parts; sp = fst st
                 in (sp\<lparr>mp_coq := push_url ui (mp_coq sp), m_statis := new_domain (ui_domain ui) (m_statis sp)\<rparr>,
                     snd st + 1))))"

definition forget_urls :: "CSpider \<Rightarrow> CSpider" where
  "forget_urls sp = with_domains [] (sp\<lparr>mp_cpq := clear_urls (mp_cpq sp), mp_ipq := clear_urls (mp_ipq sp),
     mp_coq := clear_urls (mp_coq sp), mp_ioq := clear_urls (mp_ioq sp)\<rparr>)"

text \<open>The \<open>md5sum\<close> that \<open>system\<close> runs at the end writes a file the spider never reads.\<close>

definition load_input_urls :: "url_parser \<Rightarrow> int \<Rightarrow> stack \<Rightarrow> disk \<Rightarrow> string \<Rightarrow> CSpider \<Rightarrow> (int \<times> CSpider) option" where
  "load_input_urls uc junk around d input_path sp0 =
     (let sp = forget_urls sp0
      in case d_text d (input_path @ ''/'' @ INPUT_PATH @ ''/'' @ CATE_LIST) of None \<Rightarrow> Some (- 1, sp)
         | Some content \<Rightarrow>
             map_option (\<lambda>ps.
               (let (sp', count) = fold (cate_line uc junk) ps (sp, 0)
                in (0, sp'\<lparr>m_statis := (m_statis sp')\<lparr>m_COQ_url_num := m_COQ_url_num (m_statis sp') + count\<rparr>\<rparr>)))
               (file_lines around (m_spider_conf sp) content))"

section \<open>update_conf\<close>

text \<open>\<open>conf_file path\<close> is what \<open>sdConf\<close> makes of the configuration file: readable or not, and the two getters.
  \<open>reload_conf\<close> is \<open>load_conf\<close> with the member it sets first, \<open>m_conf_path\<close>.\<close>

type_synonym conf_reader = "string \<Rightarrow> bool \<times> (string \<Rightarrow> string) \<times> (string \<Rightarrow> int)"

definition reload_conf :: "conf_reader \<Rightarrow> string \<Rightarrow> CSpider \<Rightarrow> int \<times> CSpider" where
  "reload_conf conf_file path sp =
     (case conf_file path of (readable, gs, gi) \<Rightarrow>
        (case load_conf readable gs gi (m_spider_conf sp) of (rc, c) \<Rightarrow> (rc, sp\<lparr>m_conf_path := path, m_spider_conf := c\<rparr>)))"

text \<open>The three parts, each a change time and a reload; they say whether the function goes on. \<open>stacks\<close> are
  the memories around the buffers of the two loaders.\<close>

definition update_main :: "conf_reader \<Rightarrow> disk \<Rightarrow> CSpider \<Rightarrow> bool \<times> CSpider" where
  "update_main conf_file d sp =
     (let t = get_change_time d (m_conf_path sp)
      in if t = - 1 then (False, sp)
         else if t \<noteq> m_conf_change_time sp
         then (case reload_conf conf_file (m_conf_path sp) sp of (rc, sp') \<Rightarrow>
                 if rc = - 1 then (False, sp') else (True, sp'\<lparr>m_conf_change_time := t\<rparr>))
         else (True, sp))"

definition update_stop :: "stack \<Rightarrow> disk \<Rightarrow> CSpider \<Rightarrow> (bool \<times> CSpider) option" where
  "update_stop around d sp =
     (let path = stop_domain_conf_path (m_spider_conf sp); t = get_change_time d path
      in if t = - 1 then Some (False, sp)
         else if t \<noteq> m_stop_domain_conf_change_time sp
         then map_option (\<lambda>(rc, sp'). if rc = - 1 then (False, sp') else (True, sp'\<lparr>m_stop_domain_conf_change_time := t\<rparr>))
                (load_stop_domain around d path sp)
         else Some (True, sp))"

definition update_seed :: "url_parser \<Rightarrow> int \<Rightarrow> stack \<Rightarrow> disk \<Rightarrow> CSpider \<Rightarrow> (int \<times> CSpider \<times> disk) option" where
  "update_seed uc junk around d sp =
     (let path = seed_path (m_spider_conf sp)
      in if d_ctime d path = None then Some (0, sp, d)
         else
           (let t = get_change_time d path
            in if t = - 1 then Some (- 1, sp, d)
               else if t \<noteq> m_seed_change_time sp
               then map_option (\<lambda>(rc, sp', d'). if rc = - 1 then (- 1, sp', d') else (0, sp'\<lparr>m_seed_change_time := t\<rparr>, d'))
                      (load_seed uc junk around d path sp)
               else Some (0, sp, d)))"

definition update_conf :: "conf_reader \<Rightarrow> url_parser \<Rightarrow> int \<Rightarrow> stack \<times> stack \<Rightarrow> disk \<Rightarrow> CSpider
    \<Rightarrow> (int \<times> CSpider \<times> disk) option" where
  "update_conf conf_file uc junk stacks d sp =
     (case update_main conf_file d sp of
        (False, sp1) \<Rightarrow> Some (- 1, sp1, d)
      | (True, sp1) \<Rightarrow>
          (case update_stop (fst stacks) d sp1 of None \<Rightarrow> None
           | Some (False, sp2) \<Rightarrow> Some (- 1, sp2, d)
           | Some (True, sp2) \<Rightarrow> update_seed uc junk (snd stacks) d sp2))"

section \<open>Reading a text file\<close>

text \<open>A text file of lines that fit, with no blanks at their ends, and a stack on which both walks stop.\<close>

definition stack_ok :: "stack \<Rightarrow> CSpiderConf \<Rightarrow> bool" where
  "stack_ok around conf \<longleftrightarrow> (\<forall>n. 5120 \<le> nat (max_url_len conf + 1) + length (snd (around n)) \<and>
     (\<exists>c \<in> set (fst (around n)). \<not> blank0 c))"

definition clean_lines :: "CSpiderConf \<Rightarrow> string list \<Rightarrow> bool" where
  "clean_lines conf ls \<longleftrightarrow>
     list_all (\<lambda>s. text_line (nat (max_url_len conf + 1)) s \<and> clean s \<and> length s < 5120) ls"

lemma filter_all_clean:
  assumes "stack_ok around conf" "2 \<le> nat (max_url_len conf + 1)"
  shows "clean_lines conf ls \<Longrightarrow>
    filter_all around n (map (\<lambda>s. s @ replicate (nat (max_url_len conf + 1) - length s) NUL) ls @
      [replicate (nat (max_url_len conf + 1)) NUL]) = Some (ls @ [[]])"
proof (induction ls arbitrary: n)
  let ?len = "nat (max_url_len conf + 1)"
  case Nil
  have e: "([] :: string) @ replicate (?len - length ([] :: string)) NUL = replicate ?len NUL" by simp
  have "filtered_line 5120 (fst (around n)) (([] @ replicate (?len - length ([] :: string)) NUL) @ snd (around n)) = Some []"
    by (rule filtered_line_clean) (use assms in \<open>auto simp: text_line_def clean_def stack_ok_def\<close>)
  then show ?case unfolding e by simp
next
  let ?len = "nat (max_url_len conf + 1)"
  case (Cons s ls)
  have "filtered_line 5120 (fst (around n)) ((s @ replicate (?len - length s) NUL) @ snd (around n)) = Some s"
    by (rule filtered_line_clean) (use Cons.prems assms in \<open>auto simp: clean_lines_def stack_ok_def\<close>)
  with Cons show ?case by (simp add: clean_lines_def)
qed

lemma file_lines_text:
  assumes "stack_ok around conf" "0 < max_url_len conf" "clean_lines conf ls"
  shows "file_lines around conf (lines_text ls) = Some (ls @ [[]])"
proof -
  have len: "2 \<le> nat (max_url_len conf + 1)" using assms(2) by simp
  have "list_all (text_line (nat (max_url_len conf + 1))) ls"
    using assms(3) by (auto simp: clean_lines_def list_all_iff)
  from line_bufs_text [OF len this] filter_all_clean [OF assms(1) len assms(3)]
  show ?thesis by (simp add: file_lines_def fopen_text_def)
qed

section \<open>Shields and seeds\<close>

lemma map_of_unshield: "map_of (unshield m) d = map_option (isShield_update (\<lambda>_. 0)) (map_of m d)"
  by (induction m) (auto simp: unshield_def)

lemma map_of_stop_lines:
  "map_of (fold stop_line ps m) d =
     (if d \<in> set ps \<and> d \<noteq> []
      then Some (case map_of m d of None \<Rightarrow> \<lparr>isShield = 1, isSeed = 0\<rparr> | Some a \<Rightarrow> a\<lparr>isShield := 1\<rparr>)
      else map_of m d)"
proof (induction ps arbitrary: m)
  case (Cons p ps)
  have "map_of (stop_line p m) d = (if d = p \<and> d \<noteq> []
      then Some (case map_of m d of None \<Rightarrow> \<lparr>isShield = 1, isSeed = 0\<rparr> | Some a \<Rightarrow> a\<lparr>isShield := 1\<rparr>)
      else map_of m d)"
    by (auto simp: stop_line_def split: option.split)
  then show ?case by (auto simp: Cons split: option.splits)
qed simp

lemma empty_line [simp]: "stop_line [] m = m" "seed_line uc junk [] st = st" "cate_line uc junk [] st' = st'"
  by (simp_all add: stop_line_def seed_line_def cate_line_def)

lemma sm_inv_unshield: "sm_inv m \<Longrightarrow> sm_inv (unshield m)"
proof -
  assume "sm_inv m"
  moreover have "map fst (unshield m) = map fst m" by (simp add: unshield_def comp_def case_prod_beta)
  ultimately show ?thesis by (simp only: sm_inv_def)
qed

lemma sm_inv_stop_lines: "sm_inv m \<Longrightarrow> sm_inv (fold stop_line ps m)"
  by (induction ps arbitrary: m) (auto simp: stop_line_def split: option.splits)

lemma map_of_seed_domain:
  "map_of (seed_domain host m) d =
     (if d = host then Some (case map_of m d of None \<Rightarrow> \<lparr>isShield = 0, isSeed = 1\<rparr>
        | Some a \<Rightarrow> if isSeed a = 0 then a\<lparr>isSeed := 1\<rparr> else a)
      else map_of m d)"
  by (auto simp: seed_domain_def split: option.split)

text \<open>What the loop of \<open>load_seed\<close> does: URLs to the priority category pool, domains to seeds, lines to the
  backup.\<close>

definition built :: "url_parser \<Rightarrow> string list \<Rightarrow> (string \<times> string \<times> string) list" where
  "built uc ps = List.map_filter uc (filter (\<lambda>p. p \<noteq> []) ps)"

lemma fold_seed_line:
  "fold (seed_line uc junk) ps (sp, bak) =
     (with_domains (fold (\<lambda>parts. seed_domain (snd (snd parts))) (built uc ps) (m_domain (m_statis sp)))
        (sp\<lparr>mp_cpq := fold push_url (map (url_info junk) (built uc ps)) (mp_cpq sp)\<rparr>),
      bak @ lines_text (filter (\<lambda>p. p \<noteq> [] \<and> uc p \<noteq> None) ps))"
proof (induction ps arbitrary: sp bak)
  case Nil
  then show ?case by (simp add: built_def with_domains_def lines_text_def List.map_filter_def)
next
  case (Cons p ps)
  consider "p = []" | "p \<noteq> []" "uc p = None" | u v w where "p \<noteq> []" "uc p = Some (u, v, w)"
    by (cases "uc p") auto
  then show ?case
    by cases (simp_all add: seed_line_def [of uc junk p] seed_line_def [of uc junk "[]"] Cons built_def List.map_filter_simps with_domains_def
        lines_text_def url_info_def Let_def)
qed

text \<open>What the loop of \<open>load_input_urls\<close> does.\<close>

definition url_part :: "string \<Rightarrow> string" where
  "url_part p = takeWhile (\<lambda>c. c \<noteq> TAB) p"

lemma fold_cate_line:
  "fold (cate_line uc junk) ps (sp, n) =
     (sp\<lparr>mp_coq := fold push_url (map (url_info junk) (built (uc \<circ> url_part) ps)) (mp_coq sp),
         m_statis := fold (\<lambda>parts. new_domain (snd (snd parts))) (built (uc \<circ> url_part) ps) (m_statis sp)\<rparr>,
      n + int (length (built (uc \<circ> url_part) ps)))"
proof (induction ps arbitrary: sp n)
  case Nil
  then show ?case by (simp add: built_def List.map_filter_def)
next
  case (Cons p ps)
  consider "p = []" | "p \<noteq> []" "uc (url_part p) = None"
    | u v w where "p \<noteq> []" "uc (url_part p) = Some (u, v, w)"
    by (cases "uc (url_part p)") auto
  then show ?case
    by cases (simp_all add: cate_line_def [of uc junk p] cate_line_def [of uc junk "[]"] Cons built_def
        List.map_filter_simps url_info_def Let_def url_part_def)
qed

lemma new_domain_fields:
  "map_of (m_domain (new_domain h s)) d =
     (if d = h \<and> map_of (m_domain s) d = None then Some \<lparr>isShield = 0, isSeed = 0\<rparr> else map_of (m_domain s) d)"
  "m_COQ_url_num (new_domain h s) = m_COQ_url_num s"
  by (auto simp: new_domain_def spider_defs split: option.split)

lemma fold_new_domain:
  "map_of (m_domain (fold (\<lambda>parts. new_domain (snd (snd parts))) bs s)) d =
     (if d \<in> (snd \<circ> snd) ` set bs \<and> map_of (m_domain s) d = None then Some \<lparr>isShield = 0, isSeed = 0\<rparr>
      else map_of (m_domain s) d)"
  "m_COQ_url_num (fold (\<lambda>parts. new_domain (snd (snd parts))) bs s) = m_COQ_url_num s"
  by (induction bs arbitrary: s) (auto simp: new_domain_fields)

lemma fold_seed_domain:
  "map_of (fold (\<lambda>parts. seed_domain (snd (snd parts))) bs m) d =
     (if d \<in> (snd \<circ> snd) ` set bs
      then Some (case map_of m d of None \<Rightarrow> \<lparr>isShield = 0, isSeed = 1\<rparr>
                 | Some a \<Rightarrow> if isSeed a = 0 then a\<lparr>isSeed := 1\<rparr> else a)
      else map_of m d)"
  by (induction bs arbitrary: m) (auto simp: map_of_seed_domain split: option.splits)

lemma built_snoc_Nil [simp]: "built uc (ps @ [[]]) = built uc ps"
  by (simp add: built_def)

text \<open>The attributes of every domain after the URL list is loaded: neither shielded nor a seed.\<close>

lemma load_input_urls_plain:
  assumes "load_input_urls uc junk around d path sp = Some (rc, sp')"
    and "map_of (m_domain (m_statis sp')) h = Some a"
  shows "isShield a = 0 \<and> isSeed a = 0"
  using assms
  by (auto simp: load_input_urls_def Let_def fold_cate_line fold_new_domain forget_urls_def with_domains_def
      split: option.splits if_splits)

lemma load_input_urls_times:
  assumes "load_input_urls uc junk around d path sp = Some (rc, sp')"
  shows "m_conf_path sp' = m_conf_path sp" "m_spider_conf sp' = m_spider_conf sp"
    "m_conf_change_time sp' = m_conf_change_time sp"
    "m_stop_domain_conf_change_time sp' = m_stop_domain_conf_change_time sp"
    "m_seed_change_time sp' = m_seed_change_time sp"
  using assms
  by (auto simp: load_input_urls_def Let_def fold_cate_line forget_urls_def with_domains_def split: option.splits)

text \<open>Nothing is reloaded while the change times are the ones the spider remembers.\<close>

definition up_to_date :: "disk \<Rightarrow> CSpider \<Rightarrow> bool" where
  "up_to_date d sp \<longleftrightarrow>
     d_ctime d (m_conf_path sp) = Some (m_conf_change_time sp) \<and> m_conf_change_time sp \<noteq> - 1 \<and>
     d_ctime d (stop_domain_conf_path (m_spider_conf sp)) = Some (m_stop_domain_conf_change_time sp) \<and>
     m_stop_domain_conf_change_time sp \<noteq> - 1 \<and>
     (d_ctime d (seed_path (m_spider_conf sp)) = None \<or>
      d_ctime d (seed_path (m_spider_conf sp)) = Some (m_seed_change_time sp) \<and> m_seed_change_time sp \<noteq> - 1)"

lemma update_conf_up_to_date:
  "up_to_date d sp \<Longrightarrow> update_conf conf_file uc junk stacks d sp = Some (0, sp, d)"
  by (auto simp: up_to_date_def update_conf_def update_main_def update_stop_def update_seed_def get_change_time_def)

lemma load_stop_domain_times:
  assumes "load_stop_domain around d path sp = Some (rc, sp')"
  shows "m_conf_path sp' = m_conf_path sp" "m_spider_conf sp' = m_spider_conf sp"
    "m_conf_change_time sp' = m_conf_change_time sp"
  using assms by (auto simp: load_stop_domain_def with_domains_def split: option.splits)

lemma load_seed_times:
  assumes "load_seed uc junk around d path sp = Some (rc, sp', d')"
  shows "m_conf_path sp' = m_conf_path sp" "m_spider_conf sp' = m_spider_conf sp"
    "m_conf_change_time sp' = m_conf_change_time sp"
    "m_stop_domain_conf_change_time sp' = m_stop_domain_conf_change_time sp"
    "d_ctime d' = (if rc = 0 then (d_ctime d)(seed_path (m_spider_conf sp) := None) else d_ctime d)"
    "rc = 0 \<or> rc = - 1"
  using assms
  by (auto simp: load_seed_def Let_def fold_seed_line with_domains_def unlink_def append_text_def
      split: option.splits if_splits)

lemma load_seed_done:
  assumes "load_seed uc junk around d path sp = Some (rc, sp', d')" "rc \<noteq> - 1"
  shows "m_conf_path sp' = m_conf_path sp \<and> m_spider_conf sp' = m_spider_conf sp \<and>
    m_conf_change_time sp' = m_conf_change_time sp \<and>
    m_stop_domain_conf_change_time sp' = m_stop_domain_conf_change_time sp \<and>
    d_ctime d' = (d_ctime d)(seed_path (m_spider_conf sp) := None)"
  using load_seed_times [OF assms(1)] assms(2) by auto

lemma update_main_ok:
  "update_main conf_file d sp = (True, sp1) \<Longrightarrow>
   d_ctime d (m_conf_path sp1) = Some (m_conf_change_time sp1) \<and> m_conf_change_time sp1 \<noteq> - 1"
  by (auto simp: update_main_def get_change_time_def reload_conf_def Let_def split: option.splits if_splits prod.splits)

lemma update_stop_ok:
  "update_stop around d sp1 = Some (True, sp2) \<Longrightarrow>
   m_conf_path sp2 = m_conf_path sp1 \<and> m_spider_conf sp2 = m_spider_conf sp1 \<and>
   m_conf_change_time sp2 = m_conf_change_time sp1 \<and>
   d_ctime d (stop_domain_conf_path (m_spider_conf sp2)) = Some (m_stop_domain_conf_change_time sp2) \<and>
   m_stop_domain_conf_change_time sp2 \<noteq> - 1"
  by (auto simp: update_stop_def get_change_time_def Let_def dest: load_stop_domain_times
      split: option.splits if_splits)

lemma update_seed_ok:
  assumes "update_seed uc junk around d sp2 = Some (0, sp', d')"
  shows "m_conf_path sp' = m_conf_path sp2" "m_spider_conf sp' = m_spider_conf sp2"
    "m_conf_change_time sp' = m_conf_change_time sp2"
    "m_stop_domain_conf_change_time sp' = m_stop_domain_conf_change_time sp2"
    "\<forall>path. path \<noteq> seed_path (m_spider_conf sp2) \<longrightarrow> d_ctime d' path = d_ctime d path"
    "d_ctime d' (seed_path (m_spider_conf sp')) = None \<or>
     d_ctime d' (seed_path (m_spider_conf sp')) = Some (m_seed_change_time sp') \<and> m_seed_change_time sp' \<noteq> - 1"
  using assms
  by (auto simp: update_seed_def get_change_time_def Let_def dest!: load_seed_done
      split: option.splits if_splits prod.splits)

section \<open>Properties\<close>

text \<open>Concrete parameters for the witnesses: a parser that takes the text itself for all three parts, a stack
  that stops the walks, and a disk with one file.\<close>

definition sample_parser :: url_parser where
  "sample_parser s = Some (s, s, s)"

definition sample_stack :: stack where
  "sample_stack n = (''x'', replicate 5120 NUL)"

definition sample_conf :: CSpiderConf where
  "sample_conf = conf_zeroed\<lparr>max_url_len := 100, seed_path := ''seed'', seed_bak_path := ''bak'',
     stop_domain_conf_path := ''stop''\<rparr>"

definition sample_disk :: "string \<Rightarrow> string list \<Rightarrow> disk" where
  "sample_disk path ls = \<lparr>d_text = [path \<mapsto> lines_text ls], d_append = \<lambda>_. True,
     d_ctime = [path \<mapsto> 7, ''stop'' \<mapsto> 7, ''conf'' \<mapsto> 7]\<rparr>"

lemma sample_stack_ok: "stack_ok sample_stack conf"
  by (simp add: stack_ok_def sample_stack_def blank0_def blank_def)

lemma sample_conf_facts [simp]:
  "m_spider_conf (spider_new sample_conf) = sample_conf" "max_url_len sample_conf = 100"
  "seed_path sample_conf = ''seed''" "seed_bak_path sample_conf = ''bak''"
  "stop_domain_conf_path sample_conf = ''stop''"
  by (simp_all add: spider_new_def sample_conf_def)

text \<open>C22: Loading the stop list shields exactly the domains it names: whatever was shielded before and is not
  named is unshielded, a named domain the spider does not know is entered as a shielded ordinary
  domain, and no domain changes between seed and ordinary.\<close>

theorem load_stop_domain_shields:
  assumes "stack_ok around (m_spider_conf sp)" "0 < max_url_len (m_spider_conf sp)"
    and "clean_lines (m_spider_conf sp) ls" "d_text d path = Some (lines_text ls)"
  shows "\<exists>sp'. load_stop_domain around d path sp = Some (0, sp') \<and>
    (\<forall>h. map_of (m_domain (m_statis sp')) h =
       (if h \<in> set ls \<and> h \<noteq> []
        then Some (case map_of (m_domain (m_statis sp)) h of None \<Rightarrow> \<lparr>isShield = 1, isSeed = 0\<rparr>
                   | Some a \<Rightarrow> a\<lparr>isShield := 1\<rparr>)
        else map_option (isShield_update (\<lambda>_. 0)) (map_of (m_domain (m_statis sp)) h)))"
  using assms(4) file_lines_text [OF assms(1-3)]
  by (auto simp: load_stop_domain_def with_domains_def map_of_stop_lines map_of_unshield split: option.split)

lemma load_stop_domain_shields_witness:
  "\<exists>sp'. load_stop_domain sample_stack (sample_disk ''stop'' [''a.cn'']) ''stop'' (spider_new sample_conf) = Some (0, sp') \<and>
     map_of (m_domain (m_statis sp')) ''a.cn'' = Some \<lparr>isShield = 1, isSeed = 0\<rparr>"
proof -
  have "clean_lines sample_conf [''a.cn'']"
    by (simp add: clean_lines_def text_line_def clean_def blank_def)
  moreover have "d_text (sample_disk ''stop'' [''a.cn'']) ''stop'' = Some (lines_text [''a.cn''])"
    by (simp add: sample_disk_def)
  ultimately show ?thesis
    using load_stop_domain_shields [of sample_stack "spider_new sample_conf" "[''a.cn'']"] sample_stack_ok
    by (fastforce simp: spider_new_def statis_new_def)
qed

text \<open>C21: Loading seeds makes every domain of the list a seed and leaves the other domains as they are; the
  list's URLs are in the priority category pool, each once and behind what it held; the lines that
  were URLs are appended to the backup behind an empty line, and the seed file is removed.\<close>

theorem load_seed_result:
  assumes "stack_ok around (m_spider_conf sp)" "0 < max_url_len (m_spider_conf sp)"
    and "clean_lines (m_spider_conf sp) ls" "d_text d path = Some (lines_text ls)"
    and "d_append d (seed_bak_path (m_spider_conf sp))"
    and "seed_path (m_spider_conf sp) = path" "seed_bak_path (m_spider_conf sp) \<noteq> path"
  shows "\<exists>sp' d'. load_seed uc junk around d path sp = Some (0, sp', d') \<and>
    (\<forall>h. map_of (m_domain (m_statis sp')) h =
       (if h \<in> (snd \<circ> snd) ` set (built uc ls)
        then Some (case map_of (m_domain (m_statis sp)) h of None \<Rightarrow> \<lparr>isShield = 0, isSeed = 1\<rparr>
                   | Some a \<Rightarrow> if isSeed a = 0 then a\<lparr>isSeed := 1\<rparr> else a)
        else map_of (m_domain (m_statis sp)) h)) \<and>
    mp_cpq sp' = fold push_url (map (url_info junk) (built uc ls)) (mp_cpq sp) \<and>
    d_text d' path = None \<and>
    d_text d' (seed_bak_path (m_spider_conf sp)) =
      Some ((case d_text d (seed_bak_path (m_spider_conf sp)) of None \<Rightarrow> [] | Some s \<Rightarrow> s) @ LF #
            lines_text (filter (\<lambda>p. p \<noteq> [] \<and> uc p \<noteq> None) ls))"
  using assms(4-) file_lines_text [OF assms(1-3)]
  by (simp add: load_seed_def Let_def fold_seed_line with_domains_def fold_seed_domain unlink_def append_text_def)

lemma load_seed_result_witness:
  "\<exists>sp' d'. load_seed sample_parser 0 sample_stack (sample_disk ''seed'' [''a.cn'']) ''seed'' (spider_new sample_conf) =
       Some (0, sp', d') \<and> map_of (m_domain (m_statis sp')) ''a.cn'' = Some \<lparr>isShield = 0, isSeed = 1\<rparr>"
proof -
  have "clean_lines sample_conf [''a.cn'']"
    by (simp add: clean_lines_def text_line_def clean_def blank_def)
  moreover have "d_text (sample_disk ''seed'' [''a.cn'']) ''seed'' = Some (lines_text [''a.cn''])"
    "d_append (sample_disk ''seed'' [''a.cn'']) ''bak''"
    by (simp_all add: sample_disk_def)
  ultimately show ?thesis
    using load_seed_result [of sample_stack "spider_new sample_conf" "[''a.cn'']"
        "sample_disk ''seed'' [''a.cn'']" "''seed''" sample_parser 0] sample_stack_ok
    by (fastforce simp: spider_new_def statis_new_def built_def sample_parser_def List.map_filter_simps)
qed

text \<open>C20: Loading the URL list starts from nothing: afterwards the deque of the ordinary category pool is
  the URLs of the list in file order, each where it occurs first and none shorter than four characters,
  each with the domain and the site of its line; the other pools are empty, and
  the known domains are exactly the domains of the list, none of them shielded or a seed.\<close>

theorem load_input_urls_result:
  assumes "stack_ok around (m_spider_conf sp)" "0 < max_url_len (m_spider_conf sp)"
    and "clean_lines (m_spider_conf sp) ls"
    and "d_text d (path @ ''/'' @ INPUT_PATH @ ''/'' @ CATE_LIST) = Some (lines_text ls)"
  shows "\<exists>sp'. load_input_urls uc junk around d path sp = Some (0, sp') \<and>
    (let bs = built (uc \<circ> url_part) ls; q = m_url_queue (mp_coq sp')
     in map ui_url q = rev (remdups (rev (filter (\<lambda>u. 4 \<le> length u) (map fst bs)))) \<and>
        set q \<subseteq> url_info junk ` set bs \<and> m_url_set (mp_coq sp') = ui_url ` set q \<and>
        mp_ioq sp' = pool_new \<and> mp_cpq sp' = pool_new \<and> mp_ipq sp' = pool_new \<and>
        (\<forall>h. map_of (m_domain (m_statis sp')) h =
             (if h \<in> (snd \<circ> snd) ` set bs then Some \<lparr>isShield = 0, isSeed = 0\<rparr> else None)))"
proof -
  let ?us = "map (url_info junk) (built (uc \<circ> url_part) ls)"
  let ?q = "m_url_queue (fold push_url ?us pool_new)"
  have cl: "clear_urls p = pool_new" for p by (simp add: clear_urls_def pool_new_def)
  have m: "map ui_url ?us = map fst (built (uc \<circ> url_part) ls)" by (simp add: url_info_def)
  have q: "map ui_url ?q = rev (remdups (rev (filter (\<lambda>u. 4 \<le> length u) (map fst (built (uc \<circ> url_part) ls)))))"
    using fold_push_url_queue [of ?us] unfolding m .
  have sub: "set ?q \<subseteq> url_info junk ` set (built (uc \<circ> url_part) ls)"
    using fold_push_url_subset [of ?us pool_new] by (simp add: pool_new_def)
  have known: "m_url_set (fold push_url ?us pool_new) = ui_url ` set ?q"
    using fold_push_url_queue [of ?us, THEN arg_cong, of set] by (auto simp: fold_push_url_set pool_new_def)
  show ?thesis
    using assms(4) file_lines_text [OF assms(1-3)] q sub known
    by (simp add: load_input_urls_def forget_urls_def with_domains_def fold_cate_line fold_new_domain Let_def cl)
qed

lemma load_input_urls_result_witness:
  "\<exists>sp'. load_input_urls sample_parser 0 sample_stack
      (sample_disk ''/input/cate.list'' [''b.cn'', ''a.cn'', ''b.cn'', ''c.c'']) [] (spider_new sample_conf) = Some (0, sp') \<and>
     map ui_url (m_url_queue (mp_coq sp')) = [''b.cn'', ''a.cn'']"
proof -
  let ?ls = "[''b.cn'', ''a.cn'', ''b.cn'', ''c.c'']"
  have ls: "clean_lines (m_spider_conf (spider_new sample_conf)) ?ls"
    by (simp add: clean_lines_def text_line_def clean_def blank_def)
  have d: "d_text (sample_disk ''/input/cate.list'' ?ls) ([] @ ''/'' @ INPUT_PATH @ ''/'' @ CATE_LIST) = Some (lines_text ?ls)"
    by (simp add: sample_disk_def INPUT_PATH_def CATE_LIST_def)
  have len: "0 < max_url_len (m_spider_conf (spider_new sample_conf))" by simp
  have b: "map fst (built (sample_parser \<circ> url_part) ?ls) = ?ls"
    by (simp add: built_def sample_parser_def List.map_filter_simps url_part_def)
  have f: "rev (remdups (rev (filter (\<lambda>u. 4 \<le> length u) ?ls))) = [''b.cn'', ''a.cn'']" by code_simp
  from load_input_urls_result [OF sample_stack_ok len ls d, of sample_parser 0]
  show ?thesis unfolding Let_def b f by (rule ex_forward) blast
qed

text \<open>Updating is idempotent: after an update that returned 0, another one with the same disk reads nothing
  and changes nothing, as long as the seed file, which the first one may have removed, is not the
  configuration or the stop list itself.\<close>

theorem update_conf_idempotent:
  assumes "update_conf conf_file uc junk stacks d sp = Some (0, sp', d')"
    and "seed_path (m_spider_conf sp') \<noteq> m_conf_path sp'"
    and "seed_path (m_spider_conf sp') \<noteq> stop_domain_conf_path (m_spider_conf sp')"
  shows "update_conf conf_file2 uc2 junk2 stacks2 d' sp' = Some (0, sp', d')"
proof -
  obtain sp1 sp2 where 1: "update_main conf_file d sp = (True, sp1)"
    and 2: "update_stop (fst stacks) d sp1 = Some (True, sp2)"
    and 3: "update_seed uc junk (snd stacks) d sp2 = Some (0, sp', d')"
    using assms(1) by (auto simp: update_conf_def split: prod.splits option.splits bool.splits)
  note main = update_main_ok [OF 1] and stop = update_stop_ok [OF 2] and seed = update_seed_ok [OF 3]
  have stop4: "d_ctime d (stop_domain_conf_path (m_spider_conf sp2)) = Some (m_stop_domain_conf_change_time sp2)"
    "m_stop_domain_conf_change_time sp2 \<noteq> - 1" using stop by blast+
  have same: "d_ctime d' path = d_ctime d path" if "path \<noteq> seed_path (m_spider_conf sp')" for path
    using that seed(2,5) by simp
  have "d_ctime d' (m_conf_path sp') = Some (m_conf_change_time sp') \<and> m_conf_change_time sp' \<noteq> - 1"
    using same [of "m_conf_path sp'"] assms(2) main stop seed(1,3) by simp
  moreover have "d_ctime d' (stop_domain_conf_path (m_spider_conf sp')) = Some (m_stop_domain_conf_change_time sp') \<and>
      m_stop_domain_conf_change_time sp' \<noteq> - 1"
    using same [of "stop_domain_conf_path (m_spider_conf sp')"] assms(3) stop4 unfolding seed(2,4) by simp
  ultimately have "up_to_date d' sp'" unfolding up_to_date_def using seed(6) by blast
  then show ?thesis by (rule update_conf_up_to_date)
qed

definition sample_current :: CSpider where
  "sample_current = (spider_new sample_conf)\<lparr>m_conf_path := ''conf'', m_conf_change_time := 7,
     m_stop_domain_conf_change_time := 7\<rparr>"

lemma sample_current_up_to_date: "up_to_date (sample_disk ''/input/cate.list'' ls) sample_current"
  by (simp add: up_to_date_def sample_current_def sample_disk_def)

lemma update_conf_idempotent_witness:
  "update_conf (\<lambda>_. (False, \<lambda>_. [], \<lambda>_. 0)) sample_parser 0 (sample_stack, sample_stack)
     (sample_disk ''/input/cate.list'' []) sample_current = Some (0, sample_current, sample_disk ''/input/cate.list'' [])"
  by (rule update_conf_idempotent [OF update_conf_up_to_date [OF sample_current_up_to_date]])
    (simp_all add: sample_current_def)

text \<open>C23: A new samsara forgets the stop list and the seeds: after \<open>load_input_urls\<close> has reloaded the URLs,
  \<open>update_conf\<close> with unchanged files returns 0 and reads none of them, and no domain is shielded or a
  seed any more, whatever was before.\<close>

theorem samsara_forgets_shields:
  assumes "up_to_date d sp" "load_input_urls uc junk around d path sp = Some (rc, sp1)"
  shows "update_conf conf_file uc2 junk2 stacks d sp1 = Some (0, sp1, d) \<and>
    (\<forall>h. case map_of (m_domain (m_statis sp1)) h of None \<Rightarrow> True | Some a \<Rightarrow> isShield a = 0 \<and> isSeed a = 0)"
proof -
  have "up_to_date d sp1" using assms(1) load_input_urls_times [OF assms(2)] by (simp add: up_to_date_def)
  then show ?thesis
    using load_input_urls_plain [OF assms(2)] by (auto intro: update_conf_up_to_date split: option.split)
qed

lemma samsara_forgets_shields_witness:
  "\<exists>sp1. load_input_urls sample_parser 0 sample_stack (sample_disk ''/input/cate.list'' [''a.cn'']) []
      sample_current = Some (0, sp1) \<and>
     update_conf (\<lambda>_. (False, \<lambda>_. [], \<lambda>_. 0)) sample_parser 0 (sample_stack, sample_stack)
      (sample_disk ''/input/cate.list'' [''a.cn'']) sp1 = Some (0, sp1, sample_disk ''/input/cate.list'' [''a.cn''])"
proof -
  let ?d = "sample_disk ''/input/cate.list'' [''a.cn'']"
  have c: "m_spider_conf sample_current = sample_conf" by (simp add: sample_current_def)
  have "file_lines sample_stack sample_conf (lines_text [''a.cn'']) = Some ([''a.cn''] @ [[]])"
    by (rule file_lines_text [OF sample_stack_ok])
      (simp_all add: clean_lines_def text_line_def clean_def blank_def)
  moreover have "d_text ?d (''/'' @ INPUT_PATH @ ''/'' @ CATE_LIST) = Some (lines_text [''a.cn''])"
    by (simp add: sample_disk_def INPUT_PATH_def CATE_LIST_def)
  ultimately obtain sp1 where l: "load_input_urls sample_parser 0 sample_stack ?d [] sample_current = Some (0, sp1)"
    by (simp add: load_input_urls_def forget_urls_def with_domains_def fold_cate_line c Let_def)
  from samsara_forgets_shields [OF sample_current_up_to_date l] l show ?thesis by blast
qed

lemma file_lines_return:
  assumes "stack_ok around conf" "0 < max_url_len conf"
  shows "\<exists>ps. file_lines around conf content = Some ps"
proof -
  let ?len = "nat (max_url_len conf + 1)"
  obtain bufs where b: "line_bufs ?len (fopen_text content) = Some bufs"
    using line_bufs_total [of ?len "fopen_text content"] assms(2) by fastforce
  have "list_all (\<lambda>b. length b = ?len \<and> NUL \<in> set b) bufs"
    using line_bufs_sound [OF _ b] assms(2) by simp
  then have "\<exists>ps. filter_all around n bufs = Some ps" for n
  proof (induction bufs arbitrary: n)
    case (Cons buf bufs)
    obtain ps where "filter_all around (Suc n) bufs = Some ps" using Cons by auto
    moreover have "filtered_line 5120 (fst (around n)) (buf @ snd (around n)) \<noteq> None"
      using Cons.prems assms(1) by (intro filtered_line_returns) (auto simp: stack_ok_def)
    ultimately show ?case by auto
  qed simp
  then show ?thesis by (simp add: file_lines_def b)
qed



end
