(* ===== verification/Url_Recognizer.thy ===== *)
theory Url_Recognizer
  imports C_File "HOL-Library.Sublist"
begin

text \<open>
  \<open>CUrlRecognizer\<close> (url_recognizer.h, url_recognizer.cpp): the rules that tell item pages from
  category pages and normalise URLs. A rule is a pair of a regular expression's text and a
  replacement; \<open>boost::regex\<close> is not in the repository, so compiling an expression (\<open>bad_regex\<close>
  for the ones \<open>assign\<close> throws on), searching with it (\<open>search url re\<close>) and replacing with it
  (\<open>replace url re text\<close>) are parameters, and so is the domain that \<open>ucUrl\<close> gives a URL.
\<close>

section \<open>The rules and their use\<close>

type_synonym rule = "string \<times> string"
type_synonym domain_rules = "(string \<times> rule list) list"
type_synonym rule_map = "(string \<times> domain_rules) list"

definition rules_under :: "rule_map \<Rightarrow> string \<Rightarrow> string \<Rightarrow> rule list" where
  "rules_under m domain name =
     (case map_of m domain of None \<Rightarrow> []
      | Some rs \<Rightarrow> (case map_of rs name of None \<Rightarrow> [] | Some l \<Rightarrow> l))"

definition get_type :: "(string \<Rightarrow> string) \<Rightarrow> (string \<Rightarrow> string \<Rightarrow> bool) \<Rightarrow> rule_map \<Rightarrow> string \<Rightarrow> int" where
  "get_type domain_of search m url =
     (case map_of m (domain_of url) of None \<Rightarrow> - 1
      | Some rs \<Rightarrow>
          if (case map_of rs ''item'' of None \<Rightarrow> False | Some l \<Rightarrow> list_ex (\<lambda>r. search url (fst r)) l) then 1
          else if (case map_of rs ''category'' of None \<Rightarrow> False | Some l \<Rightarrow> list_ex (\<lambda>r. search url (fst r)) l) then 2
          else 0)"

definition normalize :: "(string \<Rightarrow> string) \<Rightarrow> (string \<Rightarrow> string \<Rightarrow> string \<Rightarrow> string) \<Rightarrow> rule_map \<Rightarrow> string \<Rightarrow> string" where
  "normalize domain_of replace m url =
     (case map_of m (domain_of url) of None \<Rightarrow> []
      | Some rs \<Rightarrow> (case map_of rs ''normalize'' of None \<Rightarrow> []
                    | Some l \<Rightarrow> fold (\<lambda>(re, rep) u. replace u re rep) l url))"

text \<open>\<open>m_rules[domain].rules_of_domain[name].rules.push_back(r)\<close>; \<open>operator[]\<close> makes what is missing.\<close>

definition add_rule :: "string \<Rightarrow> string \<Rightarrow> rule \<Rightarrow> rule_map \<Rightarrow> rule_map" where
  "add_rule domain name r m =
     (let rs = (case map_of m domain of None \<Rightarrow> [] | Some rs \<Rightarrow> rs);
          l = (case map_of rs name of None \<Rightarrow> [] | Some l \<Rightarrow> l)
      in sm_put domain (sm_put name (l @ [r]) rs) m)"

text \<open>The text of \<open>print_conf\<close>.\<close>

definition print_conf :: "rule_map \<Rightarrow> string" where
  "print_conf m =
     concat (map (\<lambda>(domain, rs). ''['' @ domain @ '']'' @ [LF] @
       concat (map (\<lambda>(name, l). ''<'' @ name @ ''>'' @ [LF] @
         concat (map (\<lambda>(re, rep). re @ [TAB, TAB] @ rep @ [LF]) l)) rs)) m)"

section \<open>Loading\<close>

text \<open>
  The memory around the line buffer, \<open>below\<close> and \<open>upper\<close>, is what the stack holds at the \<open>n\<close>-th
  call of \<open>filter_headtail_blank\<close>: \<open>around n\<close>. A parse ends early by returning \<open>FR_FALSE\<close>, by the
  exception of a bad expression, or by a walk through memory that finds nothing to stop at; that a
  loop never ends is the outer \<open>None\<close>.
\<close>

record recog_env =
  around :: "nat \<Rightarrow> string \<times> string"
  bad_regex :: "string \<Rightarrow> bool"

datatype load_stop = Refused | Thrown | Wild

type_synonym reader = "fstream \<times> nat"

definition next_line :: "recog_env \<Rightarrow> reader \<Rightarrow> string option \<times> reader" where
  "next_line e rd =
     (let (buf, fs') = get_one_line 1024 (fst rd); (below, upper) = around e (snd rd)
      in (filtered_line 1024 below (buf @ upper), (fs', Suc (snd rd))))"

text \<open>The text of a rule: up to the first blank. For a normalising rule the replacement is the rest of
  the line behind the blanks, if at least two characters follow the first blank.\<close>

definition rule_text :: "string \<Rightarrow> string" where
  "rule_text p = takeWhile (\<lambda>c. \<not> blank c) p"

definition plain_rule :: "string \<Rightarrow> rule" where
  "plain_rule p = (rule_text p, [])"

definition norm_rule :: "string \<Rightarrow> rule" where
  "norm_rule p =
     (let re = rule_text p; n = length re + 1
      in (re, if int n < int (length p) - 1 then dropWhile (\<lambda>c. c = SPACE \<or> c = TAB) (drop n p) else []))"

text \<open>\<open>strncmp(p, s, n) == 0\<close> where \<open>s\<close> has at least \<open>n\<close> characters or ends before.\<close>

definition starts :: "string \<Rightarrow> string \<Rightarrow> bool" where
  "starts s p \<longleftrightarrow> take (length s) p = s"

text \<open>The three loops over the lines of a section.\<close>

partial_function (option) read_rules ::
  "recog_env \<Rightarrow> string \<Rightarrow> string \<Rightarrow> (string \<Rightarrow> bool) \<Rightarrow> (string \<Rightarrow> rule) \<Rightarrow> string \<Rightarrow> reader \<Rightarrow> rule_map
    \<Rightarrow> (load_stop + (string \<times> reader \<times> rule_map)) option" where
  "read_rules e domain name stop mk p rd m =
     (if stop p then Some (Inr (p, rd, m))
      else if bad_regex e (fst (mk p)) then Some (Inl Thrown)
      else (case next_line e rd of
              (None, _) \<Rightarrow> Some (Inl Wild)
            | (Some p', rd') \<Rightarrow> read_rules e domain name stop mk p' rd' (add_rule domain name (mk p) m)))"

text \<open>A header that passed its check, and then the rules up to the next one.\<close>

definition header_then_rules ::
  "recog_env \<Rightarrow> string \<Rightarrow> string \<Rightarrow> (string \<Rightarrow> bool) \<Rightarrow> (string \<Rightarrow> rule) \<Rightarrow> (string \<Rightarrow> bool) \<Rightarrow> string
    \<Rightarrow> reader \<Rightarrow> rule_map \<Rightarrow> (load_stop + (string \<times> reader \<times> rule_map)) option" where
  "header_then_rules e domain name stop mk header p rd m =
     (if \<not> header p then Some (Inl Refused)
      else (case next_line e rd of
              (None, _) \<Rightarrow> Some (Inl Wild)
            | (Some p', rd') \<Rightarrow> read_rules e domain name stop mk p' rd' m))"

definition bind_load :: "(load_stop + 'a) option \<Rightarrow> ('a \<Rightarrow> (load_stop + 'b) option) \<Rightarrow> (load_stop + 'b) option" where
  "bind_load r k = (case r of None \<Rightarrow> None | Some (Inl s) \<Rightarrow> Some (Inl s) | Some (Inr a) \<Rightarrow> k a)"

definition read_section :: "recog_env \<Rightarrow> string \<Rightarrow> reader \<Rightarrow> rule_map \<Rightarrow> (load_stop + (reader \<times> rule_map)) option" where
  "read_section e domain rd m =
     (case next_line e rd of
        (None, _) \<Rightarrow> Some (Inl Wild)
      | (Some p, rd') \<Rightarrow>
          bind_load (header_then_rules e domain ''item'' (starts ''<normalize>'') plain_rule (starts ''<item>'') p rd' m)
            (\<lambda>(p1, rd1, m1).
          bind_load (header_then_rules e domain ''normalize'' (starts ''<category>'') norm_rule (starts ''<normalize>'') p1 rd1 m1)
            (\<lambda>(p2, rd2, m2).
          bind_load (header_then_rules e domain ''category'' (\<lambda>p. p = []) plain_rule (\<lambda>p. p = ''<category>'') p2 rd2 m2)
            (\<lambda>(p3, rd3, m3). Some (Inr (rd3, m3))))))"

text \<open>A line \<open>[domain]\<close> changes the current domain; any other line leaves it.\<close>

definition domain_line_of :: "string \<Rightarrow> string \<Rightarrow> rule_map \<Rightarrow> string \<times> rule_map" where
  "domain_line_of p domain m =
     (if hd p = CHR ''['' then (butlast (tl p), sm_insert (butlast (tl p)) [] m) else (domain, m))"

partial_function (option) load_sections ::
  "recog_env \<Rightarrow> string \<Rightarrow> reader \<Rightarrow> rule_map \<Rightarrow> (load_stop + rule_map) option" where
  "load_sections e domain rd m =
     (if f_eof (fst rd) then Some (Inr m)
      else (case next_line e rd of
              (None, _) \<Rightarrow> Some (Inl Wild)
            | (Some p, rd') \<Rightarrow>
                if p = [] \<or> hd p = CHR ''#'' then load_sections e domain rd' m
                else if hd p = CHR ''['' \<and> last p \<noteq> CHR '']'' then Some (Inl Refused)
                else (case domain_line_of p domain m of (d, m1) \<Rightarrow>
                  (case read_section e d rd' m1 of None \<Rightarrow> None
                   | Some r \<Rightarrow> (case r of Inl s \<Rightarrow> Some (Inl s)
                                | Inr x \<Rightarrow> (case x of (rd2, m2) \<Rightarrow> load_sections e d rd2 m2))))))"

definition load_rules :: "recog_env \<Rightarrow> string option \<Rightarrow> rule_map \<Rightarrow> (load_stop + rule_map) option" where
  "load_rules e file m =
     (case file of None \<Rightarrow> Some (Inl Refused) | Some content \<Rightarrow> load_sections e [] (fopen_text content, 0) m)"

section \<open>What the rules of a domain are\<close>

lemma rules_under_add_rule:
  "rules_under (add_rule d n r m) d' n' =
     (if d' = d \<and> n' = n then rules_under m d n @ [r] else rules_under m d' n')"
  by (auto simp: rules_under_def add_rule_def Let_def split: option.splits)

lemma rules_under_fold_add_rule:
  "rules_under (fold (\<lambda>p. add_rule d n (mk p)) ps m) d' n' =
     (if d' = d \<and> n' = n then rules_under m d n @ map mk ps else rules_under m d' n')"
  by (induction ps arbitrary: m) (auto simp: rules_under_add_rule)

lemma rules_under_insert: "rules_under (sm_insert d [] m) d' n = rules_under m d' n"
  by (simp add: rules_under_def sm_insert_def split: option.split)

lemma dom_add_rule: "fst ` set (add_rule d n r m) = insert d (fst ` set m)"
  by (simp add: add_rule_def Let_def)

lemma dom_fold_add_rule:
  "fst ` set (fold (\<lambda>p. add_rule d n (mk p)) ps m) = (if ps = [] then fst ` set m else insert d (fst ` set m))"
  by (induction ps arbitrary: m) (auto simp: dom_add_rule)

lemma get_type_eq:
  "get_type domain_of search m url =
     (if domain_of url \<notin> fst ` set m then - 1
      else if \<exists>r \<in> set (rules_under m (domain_of url) ''item''). search url (fst r) then 1
      else if \<exists>r \<in> set (rules_under m (domain_of url) ''category''). search url (fst r) then 2 else 0)"
proof (cases "map_of m (domain_of url)")
  case None
  then have "domain_of url \<notin> fst ` set m" by (metis map_of_eq_None_iff)
  with None show ?thesis by (simp add: get_type_def)
next
  case (Some rs)
  then have "domain_of url \<in> fst ` set m" by (metis map_of_eq_None_iff option.distinct(1))
  with Some show ?thesis
    by (auto simp: get_type_def rules_under_def list_ex_iff split: option.splits)
qed

section \<open>A written configuration\<close>

text \<open>A configuration as it is meant to be written: per domain the three sections in order and a blank
  line. \<open>good_conf\<close> says what its lines must be: they fit the buffer, have blanks at neither end, are no
  header of a section and hold an expression that compiles.\<close>

record section_text =
  st_domain :: string
  st_items :: "string list"
  st_norms :: "string list"
  st_cates :: "string list"

definition section_lines :: "section_text \<Rightarrow> string list" where
  "section_lines t = (''['' @ st_domain t @ '']'') # ''<item>'' # st_items t @ ''<normalize>'' # st_norms t @
     ''<category>'' # st_cates t @ [[]]"

definition conf_text :: "section_text list \<Rightarrow> string" where
  "conf_text ts = lines_text (concat (map section_lines ts))"

definition good_line :: "(string \<Rightarrow> bool) \<Rightarrow> string \<Rightarrow> bool" where
  "good_line bad s \<longleftrightarrow> text_line 1024 s \<and> s \<noteq> [] \<and> \<not> blank (hd s) \<and> \<not> blank (last s) \<and> \<not> bad (rule_text s)"

definition good_section :: "(string \<Rightarrow> bool) \<Rightarrow> section_text \<Rightarrow> bool" where
  "good_section bad t \<longleftrightarrow> text_line 1024 (''['' @ st_domain t @ '']'') \<and>
     list_all (\<lambda>s. good_line bad s \<and> \<not> starts ''<normalize>'' s) (st_items t) \<and>
     list_all (\<lambda>s. good_line bad s \<and> \<not> starts ''<category>'' s) (st_norms t) \<and>
     list_all (good_line bad) (st_cates t)"

definition add_section :: "section_text \<Rightarrow> rule_map \<Rightarrow> rule_map" where
  "add_section t m =
     fold (\<lambda>p. add_rule (st_domain t) ''category'' (plain_rule p)) (st_cates t)
       (fold (\<lambda>p. add_rule (st_domain t) ''normalize'' (norm_rule p)) (st_norms t)
         (fold (\<lambda>p. add_rule (st_domain t) ''item'' (plain_rule p)) (st_items t)
           (sm_insert (st_domain t) [] m)))"

text \<open>A stack on which the walk below the buffer meets a byte that stops it.\<close>

definition stack_stops :: "recog_env \<Rightarrow> bool" where
  "stack_stops e \<longleftrightarrow> (\<forall>n. \<exists>c \<in> set (fst (around e n)). \<not> blank0 c)"

abbreviation rd_at :: "string \<Rightarrow> nat \<Rightarrow> reader" where
  "rd_at s n \<equiv> (\<lparr>f_rest = s, f_eof = False\<rparr>, n)"

lemma next_line_text:
  assumes "stack_stops e" "text_line 1024 s"
  shows "next_line e (rd_at (s @ LF # r) n) = (Some (tidy s), rd_at r (Suc n))"
proof -
  obtain below upper where a: "around e n = (below, upper)" by fastforce
  then have "\<exists>c \<in> set below. \<not> blank0 c" using assms(1) unfolding stack_stops_def by (metis fst_conv)
  moreover have "NUL \<notin> set s" "length s < 1024" using assms(2) by (auto simp: text_line_def)
  ultimately have "filtered_line 1024 below ((s @ replicate (1024 - length s) NUL) @ upper) = Some (tidy s)"
    by (intro filtered_line_text) auto
  then show ?thesis
    unfolding next_line_def fst_conv snd_conv get_one_line_text [OF assms(2)] Let_def a prod.case by simp
qed

lemma next_line_end:
  assumes "stack_stops e"
  shows "next_line e (\<lparr>f_rest = [], f_eof = b\<rparr>, n) = (Some [], (\<lparr>f_rest = [], f_eof = True\<rparr>, Suc n))"
proof -
  obtain below upper where a: "around e n = (below, upper)" by fastforce
  then have "\<exists>c \<in> set below. \<not> blank0 c" using assms unfolding stack_stops_def by (metis fst_conv)
  then have "filtered_line 1024 below (([] @ replicate (1024 - length ([] :: string)) NUL) @ upper) = Some (tidy [])"
    by (intro filtered_line_text) simp_all
  moreover have "get_one_line 1024 \<lparr>f_rest = [], f_eof = b\<rparr> = (replicate 1024 NUL, \<lparr>f_rest = [], f_eof = True\<rparr>)"
    by (rule get_one_line_end) simp
  ultimately show ?thesis
    unfolding next_line_def fst_conv snd_conv Let_def by (simp add: a)
qed

lemma header_then_rules_lines:
  assumes "stack_stops e" "header h" "list_all (\<lambda>s. good_line (bad_regex e) s \<and> \<not> stop s) ps"
    and "\<And>s. fst (mk s) = rule_text s" "text_line 1024 q" "stop (tidy q)"
  shows "header_then_rules e d name stop mk header h (rd_at (lines_text ps @ q @ LF # r) n) m =
    Some (Inr (tidy q, rd_at r (n + length ps + 1), fold (\<lambda>p. add_rule d name (mk p)) ps m))"
  using assms(3)
proof (induction ps arbitrary: n m)
  case Nil
  then show ?case
    using assms by (simp add: header_then_rules_def lines_text_def next_line_text read_rules.simps)
next
  case (Cons p ps)
  have p: "text_line 1024 p" "tidy p = p" "\<not> stop p" "\<not> bad_regex e (fst (mk p))"
    using Cons.prems assms(4) by (auto simp: good_line_def tidy_id)
  have "header_then_rules e d name stop mk header h (rd_at (lines_text (p # ps) @ q @ LF # r) n) m =
      read_rules e d name stop mk p (rd_at (lines_text ps @ q @ LF # r) (Suc n)) m"
    using assms(2) by (simp add: header_then_rules_def lines_text_def next_line_text [OF assms(1) p(1)] p(2))
  also have "\<dots> = header_then_rules e d name stop mk header h (rd_at (lines_text ps @ q @ LF # r) (Suc n))
      (add_rule d name (mk p) m)"
    using p assms(2) by (subst read_rules.simps) (simp add: header_then_rules_def)
  finally show ?case using Cons by simp
qed

lemma read_section_lines:
  assumes "stack_stops e" "good_section (bad_regex e) t" "d = st_domain t"
  shows "read_section e d (rd_at (lines_text (tl (section_lines t)) @ r) n) (sm_insert d [] m) =
    Some (Inr (rd_at r (n + length (section_lines t) - 1), add_section t m))"
proof -
  have h: "text_line 1024 ''<item>''" "text_line 1024 ''<normalize>''" "text_line 1024 ''<category>''" "text_line 1024 []"
    "tidy ''<item>'' = ''<item>''" "tidy ''<normalize>'' = ''<normalize>''" "tidy ''<category>'' = ''<category>''"
    by (simp_all add: text_line_def tidy_id blank_def)
  have s: "starts ''<item>'' ''<item>''" "starts ''<normalize>'' ''<normalize>''" "starts ''<category>'' ''<category>''"
    by (simp_all add: starts_def)
  have mk: "fst (plain_rule q) = rule_text q" "fst (norm_rule q) = rule_text q" for q
    by (simp_all add: plain_rule_def norm_rule_def Let_def)
  have items: "list_all (\<lambda>s. good_line (bad_regex e) s \<and> \<not> starts ''<normalize>'' s) (st_items t)"
    and norms: "list_all (\<lambda>s. good_line (bad_regex e) s \<and> \<not> starts ''<category>'' s) (st_norms t)"
    and cates: "list_all (\<lambda>s. good_line (bad_regex e) s \<and> \<not> s = []) (st_cates t)"
    using assms(2) by (auto simp: good_section_def list_all_iff good_line_def)
  let ?d = "st_domain t" and ?m0 = "sm_insert d [] m"
  have whole: "lines_text (tl (section_lines t)) @ r =
    ''<item>'' @ LF # lines_text (st_items t) @ ''<normalize>'' @ LF # lines_text (st_norms t) @
    ''<category>'' @ LF # lines_text (st_cates t) @ [] @ LF # r"
    by (simp add: section_lines_def lines_text_def)
  have 1: "header_then_rules e d ''item'' (starts ''<normalize>'') plain_rule (starts ''<item>'') ''<item>''
      (rd_at (lines_text (st_items t) @ ''<normalize>'' @ LF # r1) n1) m1 =
    Some (Inr (''<normalize>'', rd_at r1 (n1 + length (st_items t) + 1),
      fold (\<lambda>p. add_rule d ''item'' (plain_rule p)) (st_items t) m1))" for r1 n1 m1
    using header_then_rules_lines [where stop = "starts ''<normalize>''" and mk = plain_rule
        and header = "starts ''<item>''", OF assms(1) s(1) items mk(1) h(2)] s(2) unfolding h by simp
  have 2: "header_then_rules e d ''normalize'' (starts ''<category>'') norm_rule (starts ''<normalize>'') ''<normalize>''
      (rd_at (lines_text (st_norms t) @ ''<category>'' @ LF # r1) n1) m1 =
    Some (Inr (''<category>'', rd_at r1 (n1 + length (st_norms t) + 1),
      fold (\<lambda>p. add_rule d ''normalize'' (norm_rule p)) (st_norms t) m1))" for r1 n1 m1
    using header_then_rules_lines [where stop = "starts ''<category>''" and mk = norm_rule
        and header = "starts ''<normalize>''", OF assms(1) s(2) norms mk(2) h(3)] s(3) unfolding h by simp
  have 3: "header_then_rules e d ''category'' (\<lambda>p. p = []) plain_rule (\<lambda>p. p = ''<category>'') ''<category>''
      (rd_at (lines_text (st_cates t) @ [] @ LF # r1) n1) m1 =
    Some (Inr ([], rd_at r1 (n1 + length (st_cates t) + 1),
      fold (\<lambda>p. add_rule d ''category'' (plain_rule p)) (st_cates t) m1))" for r1 n1 m1
    using header_then_rules_lines [where stop = "\<lambda>p. p = []" and mk = plain_rule
        and header = "\<lambda>p. p = ''<category>''", OF assms(1) refl cates mk(1) h(4)] by simp
  show ?thesis
    unfolding whole read_section_def next_line_text [OF assms(1) h(1)] h(5) prod.case option.case
      1 2 3 bind_load_def sum.case
    by (simp add: add_section_def assms(3) section_lines_def)
qed

lemma load_sections_lines:
  assumes "stack_stops e"
  shows "list_all (good_section (bad_regex e)) ts \<Longrightarrow>
    load_sections e d (rd_at (conf_text ts) n) m = Some (Inr (fold add_section ts m))"
proof (induction ts arbitrary: d n m)
  case Nil
  show ?case
    by (simp add: load_sections.simps [of e d "rd_at _ _"] next_line_end [OF assms] conf_text_def
        lines_text_def load_sections.simps [of e d "(\<lparr>f_rest = [], f_eof = True\<rparr>, _)"])
next
  case (Cons t ts)
  let ?h = "''['' @ st_domain t @ '']''"
  have t: "good_section (bad_regex e) t" and ts: "list_all (good_section (bad_regex e)) ts"
    using Cons.prems by simp_all
  then have h: "text_line 1024 ?h" "tidy ?h = ?h"
    by (auto simp: good_section_def blank_def intro!: tidy_id)
  have whole: "conf_text (t # ts) = ?h @ LF # (lines_text (tl (section_lines t)) @ conf_text ts)"
    by (simp add: conf_text_def lines_text_def section_lines_def)
  have d: "domain_line_of ?h d m = (st_domain t, sm_insert (st_domain t) [] m)"
    by (simp add: domain_line_of_def butlast_append)
  obtain n' where sec: "read_section e (st_domain t) (rd_at (lines_text (tl (section_lines t)) @ conf_text ts) (Suc n))
      (sm_insert (st_domain t) [] m) = Some (Inr (rd_at (conf_text ts) n', add_section t m))"
    using read_section_lines [OF assms t refl] by blast
  show ?case
    unfolding whole load_sections.simps [of e d "rd_at (?h @ _) _"] next_line_text [OF assms h(1)] h(2)
      prod.case option.case d sec sum.case Cons.IH [OF ts]
    by simp
qed

lemma rules_under_add_section:
  "rules_under (add_section t m) d n = rules_under m d n @
     (if d \<noteq> st_domain t then [] else if n = ''item'' then map plain_rule (st_items t)
      else if n = ''normalize'' then map norm_rule (st_norms t)
      else if n = ''category'' then map plain_rule (st_cates t) else [])"
  by (simp add: add_section_def rules_under_fold_add_rule rules_under_insert)

lemma rules_under_add_sections:
  "rules_under (fold add_section ts m) d n = rules_under m d n @
     concat (map (\<lambda>t. if n = ''item'' then map plain_rule (st_items t)
        else if n = ''normalize'' then map norm_rule (st_norms t)
        else if n = ''category'' then map plain_rule (st_cates t) else [])
       (filter (\<lambda>t. st_domain t = d) ts))"
  by (induction ts arbitrary: m) (auto simp: rules_under_add_section)

lemma dom_add_sections: "fst ` set (fold add_section ts m) = fst ` set m \<union> st_domain ` set ts"
proof (induction ts arbitrary: m)
  case (Cons t ts)
  have "fst ` set (sm_insert d [] m') = insert d (fst ` set m')" for d :: string and m' :: rule_map
    by (auto simp: sm_insert_def map_of_eq_None_iff dest!: map_of_SomeD split: option.split)
      (metis fst_conv image_eqI)
  then have "fst ` set (add_section t m) = insert (st_domain t) (fst ` set m)"
    by (auto simp: add_section_def dom_fold_add_rule)
  with Cons show ?case by simp
qed simp

section \<open>A file that ends inside a section\<close>

lemma next_line_eof:
  assumes "stack_stops e" "f_eof (fst rd)"
  shows "next_line e rd = (Some [], (fst rd, Suc (snd rd)))"
proof -
  obtain below upper where a: "around e (snd rd) = (below, upper)" by fastforce
  then have "\<exists>c \<in> set below. \<not> blank0 c" using assms(1) unfolding stack_stops_def by (metis fst_conv)
  then have "filtered_line 1024 below (([] @ replicate (1024 - length ([] :: string)) NUL) @ upper) = Some (tidy [])"
    by (intro filtered_line_text) simp_all
  then show ?thesis using assms(2) by (simp add: next_line_def get_one_line_def a)
qed

text \<open>Once the stream is at its end, a loop that an empty line does not stop only adds empty rules.\<close>

definition stuck :: "recog_env \<Rightarrow> (string \<Rightarrow> bool) \<Rightarrow> (string \<Rightarrow> rule) \<Rightarrow> string \<Rightarrow> reader \<Rightarrow> bool" where
  "stuck e stop mk p rd \<longleftrightarrow> stack_stops e \<and> f_eof (fst rd) \<and> \<not> stop p \<and> \<not> stop [] \<and>
     \<not> bad_regex e (fst (mk p)) \<and> \<not> bad_regex e (fst (mk []))"

lemma read_rules_never_ends:
  assumes "stuck e stop mk p rd"
  shows "read_rules e d name stop mk p rd m = None"
proof (rule ccontr)
  assume "read_rules e d name stop mk p rd m \<noteq> None"
  then obtain r where r: "read_rules e d name stop mk p rd m = Some r" by blast
  have "\<not> stuck e stop mk p rd"
  proof (rule read_rules.raw_induct [where P = "\<lambda>e d name stop mk p rd m r. \<not> stuck e stop mk p rd", OF _ r], rule notI)
    fix rr :: "recog_env \<Rightarrow> string \<Rightarrow> string \<Rightarrow> (string \<Rightarrow> bool) \<Rightarrow> (string \<Rightarrow> rule) \<Rightarrow> string \<Rightarrow> reader \<Rightarrow> rule_map
        \<Rightarrow> (load_stop + (string \<times> reader \<times> rule_map)) option"
      and e d name stop mk p rd m r
    assume ih: "\<And>e d name stop mk p rd m r. rr e d name stop mk p rd m = Some r \<Longrightarrow> \<not> stuck e stop mk p rd"
      and run: "(if stop p then Some (Inr (p, rd, m))
        else if bad_regex e (fst (mk p)) then Some (Inl Thrown)
        else (case next_line e rd of (None, _) \<Rightarrow> Some (Inl Wild)
              | (Some p', rd') \<Rightarrow> rr e d name stop mk p' rd' (add_rule d name (mk p) m))) = Some r"
      and st: "stuck e stop mk p rd"
    then have "next_line e rd = (Some [], (fst rd, Suc (snd rd)))"
      by (simp add: stuck_def next_line_eof)
    moreover have "stuck e stop mk [] (fst rd, Suc (snd rd))" using st by (simp add: stuck_def)
    ultimately show False
      using run st ih [of e d name stop mk "[]" "(fst rd, Suc (snd rd))" "add_rule d name (mk p) m" r]
      by (simp add: stuck_def)
  qed
  with assms show False by blast
qed

lemma unclosed_section:
  assumes "stack_stops e" "header h" "list_all (\<lambda>s. text_line 1024 s \<and> \<not> stop (tidy s)) ps"
    and "\<And>s. fst (mk s) = rule_text s" "\<not> stop []" "\<not> bad_regex e []"
  shows "header_then_rules e d name stop mk header h (rd_at (lines_text ps) n) m =
    (if list_ex (\<lambda>s. bad_regex e (rule_text (tidy s))) ps then Some (Inl Thrown) else None)"
  using assms(3)
proof (induction ps arbitrary: n m)
  case Nil
  have "stuck e stop mk [] (\<lparr>f_rest = [], f_eof = True\<rparr>, Suc n)"
    using assms by (simp add: stuck_def rule_text_def)
  then show ?case
    using assms(2) by (simp add: header_then_rules_def lines_text_def next_line_end [OF assms(1)] read_rules_never_ends)
next
  case (Cons p ps)
  have p: "text_line 1024 p" "\<not> stop (tidy p)" using Cons.prems by auto
  have run: "header_then_rules e d name stop mk header h (rd_at (lines_text (p # ps)) n) m =
      read_rules e d name stop mk (tidy p) (rd_at (lines_text ps) (Suc n)) m"
    using assms(2) by (simp add: header_then_rules_def lines_text_def next_line_text [OF assms(1) p(1)])
  show ?case
  proof (cases "bad_regex e (rule_text (tidy p))")
    case True
    then show ?thesis unfolding run using p(2) assms(4) by (simp add: read_rules.simps)
  next
    case False
    then have "read_rules e d name stop mk (tidy p) (rd_at (lines_text ps) (Suc n)) m =
        header_then_rules e d name stop mk header h (rd_at (lines_text ps) (Suc n)) (add_rule d name (mk (tidy p)) m)"
      using p assms(2,4) by (subst read_rules.simps) (simp add: header_then_rules_def)
    with Cons False show ?thesis unfolding run by simp
  qed
qed

text \<open>Complete sections in front are read before whatever comes behind them.\<close>

lemma load_sections_front:
  assumes "stack_stops e"
  shows "list_all (good_section (bad_regex e)) ts \<Longrightarrow>
    \<exists>d' n'. load_sections e d (rd_at (conf_text ts @ r) n) m = load_sections e d' (rd_at r n') (fold add_section ts m)"
proof (induction ts arbitrary: d n m)
  case Nil
  show ?case by (auto simp: conf_text_def lines_text_def)
next
  case (Cons t ts)
  let ?h = "''['' @ st_domain t @ '']''"
  have t: "good_section (bad_regex e) t" and ts: "list_all (good_section (bad_regex e)) ts"
    using Cons.prems by simp_all
  then have h: "text_line 1024 ?h" "tidy ?h = ?h"
    by (auto simp: good_section_def blank_def intro!: tidy_id)
  have whole: "conf_text (t # ts) @ r = ?h @ LF # (lines_text (tl (section_lines t)) @ conf_text ts @ r)"
    by (simp add: conf_text_def lines_text_def section_lines_def)
  have d: "domain_line_of ?h d m = (st_domain t, sm_insert (st_domain t) [] m)"
    by (simp add: domain_line_of_def butlast_append)
  obtain n1 where sec: "read_section e (st_domain t) (rd_at (lines_text (tl (section_lines t)) @ conf_text ts @ r) (Suc n))
      (sm_insert (st_domain t) [] m) = Some (Inr (rd_at (conf_text ts @ r) n1, add_section t m))"
    using read_section_lines [OF assms t refl] by blast
  have "load_sections e d (rd_at (conf_text (t # ts) @ r) n) m =
      load_sections e (st_domain t) (rd_at (conf_text ts @ r) n1) (add_section t m)"
    unfolding whole load_sections.simps [of e d "rd_at (?h @ _) _"] next_line_text [OF assms h(1)] h(2)
      prod.case option.case d sec sum.case
    by simp
  with Cons.IH [OF ts, of "st_domain t" n1 "add_section t m"] show ?case by simp
qed

lemma load_rules_conf_text:
  assumes "stack_stops e" "list_all (good_section (bad_regex e)) ts"
  shows "load_rules e (Some (conf_text ts)) [] = Some (Inr (fold add_section ts []))"
  using load_sections_lines [OF assms] by (simp add: load_rules_def fopen_text_def)

section \<open>Properties\<close>

text \<open>A recogniser without expressions it refuses, on a stack that stops the walk.\<close>

definition plain_env :: recog_env where
  "plain_env = \<lparr>around = \<lambda>_. (''x'', []), bad_regex = \<lambda>_. False\<rparr>"

definition sample_section :: section_text where
  "sample_section = \<lparr>st_domain = ''a.cn'', st_items = [''/p/''], st_norms = [''[?].*  #''], st_cates = [''/list'']\<rparr>"

lemma sample_section_good:
  "stack_stops plain_env" "list_all (good_section (bad_regex plain_env)) [sample_section]"
  by (auto simp: stack_stops_def plain_env_def blank0_def blank_def good_section_def sample_section_def
      good_line_def text_line_def starts_def)

text \<open>C11: A configuration written as it is meant to be is loaded completely: the call returns \<open>FR_OK\<close>,
  knows exactly the domains of the sections, and has under each domain exactly the rules of its
  sections, in the order of the file.\<close>

theorem load_rules_written:
  assumes "stack_stops e" "list_all (good_section (bad_regex e)) ts"
  shows "\<exists>m. load_rules e (Some (conf_text ts)) [] = Some (Inr m) \<and> fst ` set m = st_domain ` set ts \<and>
    (\<forall>d. rules_under m d ''item'' = concat (map (map plain_rule \<circ> st_items) (filter (\<lambda>t. st_domain t = d) ts)) \<and>
         rules_under m d ''normalize'' = concat (map (map norm_rule \<circ> st_norms) (filter (\<lambda>t. st_domain t = d) ts)) \<and>
         rules_under m d ''category'' = concat (map (map plain_rule \<circ> st_cates) (filter (\<lambda>t. st_domain t = d) ts)))"
proof -
  show ?thesis
    by (intro exI [of _ "fold add_section ts []"])
      (simp add: load_rules_conf_text [OF assms] rules_under_add_sections dom_add_sections rules_under_def [of "[]"] comp_def)
qed

lemma load_rules_written_witness:
  "\<exists>m. load_rules plain_env (Some (conf_text [sample_section])) [] = Some (Inr m) \<and>
     rules_under m ''a.cn'' ''item'' = [(''/p/'', [])]"
proof -
  from load_rules_written [OF sample_section_good]
  obtain m where m: "load_rules plain_env (Some (conf_text [sample_section])) [] = Some (Inr m)"
    and r: "rules_under m ''a.cn'' ''item'' =
      concat (map (map plain_rule \<circ> st_items) (filter (\<lambda>t. st_domain t = ''a.cn'') [sample_section]))" by blast
  have "rules_under m ''a.cn'' ''item'' = [(''/p/'', [])]"
    unfolding r by (simp add: sample_section_def plain_rule_def rule_text_def blank_def)
  with m show ?thesis by blast
qed

text \<open>Whether some expression of the domain's sections matches the URL.\<close>

definition matches_some :: "(string \<Rightarrow> string) \<Rightarrow> (string \<Rightarrow> string \<Rightarrow> bool) \<Rightarrow> (section_text \<Rightarrow> string list)
    \<Rightarrow> section_text list \<Rightarrow> string \<Rightarrow> bool" where
  "matches_some domain_of search part ts url \<longleftrightarrow>
     list_ex (\<lambda>t. st_domain t = domain_of url \<and> list_ex (\<lambda>p. search url (rule_text p)) (part t)) ts"

lemma get_type_written:
  "get_type domain_of search (fold add_section ts []) url =
    (if domain_of url \<notin> st_domain ` set ts then - 1
     else if matches_some domain_of search st_items ts url then 1
     else if matches_some domain_of search st_cates ts url then 2 else 0)"
  by (auto simp: get_type_eq dom_add_sections rules_under_add_sections rules_under_def [of "[]"]
      matches_some_def list_ex_iff plain_rule_def)

text \<open>\<open>get_type\<close> classifies by the loaded rules: -1 when the URL's domain has no section, 1 (item)
  when some item expression matches, 2 (category) when none does but some category expression does,
  and 0 otherwise; the item rules take precedence whatever the order in the file.\<close>

theorem get_type_of_written:
  assumes "stack_stops e" "list_all (good_section (bad_regex e)) ts"
    and "load_rules e (Some (conf_text ts)) [] = Some (Inr m)"
  shows "get_type domain_of search m url =
    (let here = filter (\<lambda>t. st_domain t = domain_of url) ts
     in if here = [] then - 1
        else if list_ex (\<lambda>t. list_ex (\<lambda>p. search url (rule_text p)) (st_items t)) here then 1
        else if list_ex (\<lambda>t. list_ex (\<lambda>p. search url (rule_text p)) (st_cates t)) here then 2
        else 0)"
proof -
  have m: "m = fold add_section ts []"
    using load_rules_conf_text [OF assms(1,2)] assms(3) by simp
  show ?thesis
    by (auto simp: m get_type_written matches_some_def Let_def list_ex_iff filter_empty_conv image_iff)
qed

lemma get_type_of_written_witness:
  "\<exists>m. load_rules plain_env (Some (conf_text [sample_section])) [] = Some (Inr m) \<and>
     get_type (\<lambda>_. ''a.cn'') (\<lambda>u re. sublist re u) m ''http://a.cn/p/1'' = 1"
proof -
  note l = load_rules_conf_text [OF sample_section_good]
  have "get_type (\<lambda>_. ''a.cn'') (\<lambda>u re. sublist re u) (fold add_section [sample_section] []) ''http://a.cn/p/1'' = 1"
    unfolding get_type_of_written [OF sample_section_good l]
    by (simp add: sample_section_def rule_text_def blank_def sublist_code)
  with l show ?thesis by blast
qed

text \<open>C38: A file that ends inside an item section, before \<open><normalize>\<close>, is never refused and never loaded,
  whatever complete sections come before: when the expressions behind \<open><item>\<close> compile, the loop over
  the rules does not look at the end of the file and adds empty rules for ever, and when one of them does
  not compile \<open>load_conf\<close> ends by the exception. The lines end in a line feed and fit the buffer, and the
  empty expression compiles.\<close>

theorem unclosed_items_never_return:
  assumes "stack_stops e" "list_all (good_section (bad_regex e)) ts"
    and "text_line 1024 (''['' @ d @ '']'')" "\<not> bad_regex e []"
    and "list_all (\<lambda>s. text_line 1024 s \<and> \<not> starts ''<normalize>'' (tidy s)) ps"
  shows "load_rules e (Some (conf_text ts @ lines_text ((''['' @ d @ '']'') # ''<item>'' # ps))) m =
    (if list_ex (\<lambda>s. bad_regex e (rule_text (tidy s))) ps then Some (Inl Thrown) else None)"
proof -
  let ?h = "''['' @ d @ '']''"
  have i: "text_line 1024 ''<item>''" "tidy ''<item>'' = ''<item>''" "starts ''<item>'' ''<item>''" "tidy ?h = ?h"
    by (auto simp: text_line_def blank_def starts_def intro!: tidy_id)
  have whole: "lines_text (?h # ''<item>'' # ps) = ?h @ LF # (''<item>'' @ LF # lines_text ps)"
    by (simp add: lines_text_def)
  have dl: "domain_line_of ?h d0 m' = (d, sm_insert d [] m')" for d0 m' by (simp add: domain_line_of_def butlast_append)
  let ?r = "if list_ex (\<lambda>s. bad_regex e (rule_text (tidy s))) ps then Some (Inl Thrown) else None"
  have u: "header_then_rules e d ''item'' (starts ''<normalize>'') plain_rule (starts ''<item>'') ''<item>''
      (rd_at (lines_text ps) n) m' = ?r" for n m'
    by (rule unclosed_section [where stop = "starts ''<normalize>''" and header = "starts ''<item>''",
          OF assms(1) i(3) assms(5)]) (simp_all add: plain_rule_def starts_def assms(4))
  have sec: "read_section e d (rd_at (''<item>'' @ LF # lines_text ps) n) m' = 
      (if list_ex (\<lambda>s. bad_regex e (rule_text (tidy s))) ps then Some (Inl Thrown) else None)" for n m'
    unfolding read_section_def next_line_text [OF assms(1) i(1)] i(2) prod.case option.case u bind_load_def by simp
  have last: "load_sections e d0 (rd_at (lines_text (?h # ''<item>'' # ps)) n) m' = ?r" for d0 n m'
    unfolding whole load_sections.simps [of e d0 "rd_at (?h @ _) _"] next_line_text [OF assms(1,3)] i(4) prod.case
      option.case dl
    by (simp add: sec [unfolded append_Cons append_Nil])
  obtain d' n' where "load_sections e [] (rd_at (conf_text ts @ lines_text (?h # ''<item>'' # ps)) 0) m =
      load_sections e d' (rd_at (lines_text (?h # ''<item>'' # ps)) n') (fold add_section ts m)"
    using load_sections_front [OF assms(1,2)] by blast
  then show ?thesis unfolding load_rules_def option.case fopen_text_def last .
qed

lemma unclosed_items_never_return_witness:
  "load_rules plain_env (Some (conf_text [sample_section] @ lines_text [''[b.cn]'', ''<item>'', ''/p/''])) [] = None"
proof -
  have "text_line 1024 (''['' @ ''b.cn'' @ '']'')" "\<not> bad_regex plain_env []"
    "list_all (\<lambda>s. text_line 1024 s \<and> \<not> starts ''<normalize>'' (tidy s)) [''/p/'']"
    by (simp_all add: plain_env_def text_line_def starts_def tidy_id blank_def)
  from unclosed_items_never_return [OF sample_section_good this, of "[]"] show ?thesis
    by (simp add: plain_env_def)
qed

text \<open>A normalising rule is its expression up to the first blank and a replacement; a replacement
  that is one character behind one blank is lost.\<close>

theorem norm_rule_parts:
  assumes "\<forall>c \<in> set re. \<not> blank c" "b = SPACE \<or> b = TAB"
  shows "norm_rule (re @ b # rest) =
    (re, if length rest < 2 then [] else dropWhile (\<lambda>c. c = SPACE \<or> c = TAB) rest)"
proof -
  have t: "rule_text (re @ b # rest) = re"
    using assms by (auto simp: rule_text_def takeWhile_append2 blank_def)
  have d: "drop (Suc (length re)) (re @ b # rest) = rest" by simp
  show ?thesis by (simp add: norm_rule_def Let_def t d del: drop_append)
qed

lemma norm_rule_parts_witness: "norm_rule ''[?].* #'' = (''[?].*'', []) \<and> norm_rule ''[?].*  #'' = (''[?].*'', ''#'')"
  using norm_rule_parts [of "''[?].*''" SPACE "''#''"] norm_rule_parts [of "''[?].*''" SPACE "'' #''"]
  by (simp add: blank_def)

end
