(* ===== verification/Utf8_Converter.thy ===== *)
theory Utf8_Converter
  imports Prelude
begin

text \<open>
  \<open>UTF8Converter\<close> (utf8_converter.h, utf8_converter.cpp): a page is recognised as one of the code
  types and converted when it is GB or BIG5. The recogniser and the two converters are not in the
  repository; what they do is the record \<open>code_env\<close>, the numbers of the enumeration \<open>CodeType\<close> too.
\<close>

section \<open>State and operations\<close>

definition CONVERTER_MAX_CONTENT_LEN :: nat where
  "CONVERTER_MAX_CONTENT_LEN = 1024 * 1024 * 2"

text \<open>\<open>detect\<close> is \<open>DetectCode\<close>; \<open>from_gb\<close> and \<open>from_big5\<close> are \<open>convert\<close> of the two converters, with the
  input, its length and the room of the output: the result and the bytes written.\<close>

record code_env =
  EN_GB :: nat
  EN_BIG5 :: nat
  detect :: "string \<Rightarrow> int \<Rightarrow> nat"
  from_gb :: "string \<Rightarrow> int \<Rightarrow> nat \<Rightarrow> int \<times> string"
  from_big5 :: "string \<Rightarrow> int \<Rightarrow> nat \<Rightarrow> int \<times> string"
  recognizer_ok :: bool
  gb_ok :: bool
  big5_ok :: bool
  output_ok :: bool

text \<open>\<open>m_output\<close> is \<open>None\<close> for NULL.\<close>

record UTF8Converter =
  m_code_type :: nat
  m_converted_content :: string
  m_output :: "string option"
  m_input :: string
  m_input_len :: int

definition utf8_new :: "nat \<Rightarrow> string \<Rightarrow> int \<Rightarrow> UTF8Converter" where
  "utf8_new junk_type junk_input junk_len =
     \<lparr>m_code_type = junk_type, m_converted_content = [], m_output = None, m_input = junk_input,
      m_input_len = junk_len\<rparr>"

definition utf8_init :: "code_env \<Rightarrow> UTF8Converter \<Rightarrow> int \<times> UTF8Converter" where
  "utf8_init env c =
     (if \<not> recognizer_ok env then (- 1, c)
      else if \<not> gb_ok env then (- 1, c)
      else if \<not> big5_ok env then (- 1, c)
      else if \<not> output_ok env then (- 1, c\<lparr>m_output := None\<rparr>)
      else (0, c\<lparr>m_output := Some (replicate CONVERTER_MAX_CONTENT_LEN NUL)\<rparr>))"

definition set_input :: "string \<Rightarrow> int \<Rightarrow> UTF8Converter \<Rightarrow> UTF8Converter" where
  "set_input content len c = c\<lparr>m_input := content, m_input_len := len\<rparr>"

definition detect_code_type :: "code_env \<Rightarrow> UTF8Converter \<Rightarrow> nat \<times> UTF8Converter" where
  "detect_code_type env c =
     (let t = detect env (m_input c) (m_input_len c) in (t, c\<lparr>m_code_type := t\<rparr>))"

definition CODE_TYPE_STR :: "string list" where
  "CODE_TYPE_STR = [''UNKNOWN'', ''GBK'', ''GB'', ''UTF8'', ''BIG5'', ''ENGLISH'', ''DEFAULT'']"

text \<open>\<open>None\<close> is a read behind the table.\<close>

definition get_code_type_str :: "UTF8Converter \<Rightarrow> string option" where
  "get_code_type_str c =
     (if m_code_type c < length CODE_TYPE_STR then Some (CODE_TYPE_STR ! m_code_type c) else None)"

text \<open>One of the two conversions into the zeroed output buffer: the content is the C string there.\<close>

definition convert_into :: "(string \<Rightarrow> int \<Rightarrow> nat \<Rightarrow> int \<times> string) \<Rightarrow> UTF8Converter \<Rightarrow> int \<times> UTF8Converter" where
  "convert_into conv c =
     (let (real_len, written) = conv (m_input c) (m_input_len c) (CONVERTER_MAX_CONTENT_LEN - 1);
          out = written @ replicate (CONVERTER_MAX_CONTENT_LEN - length written) NUL;
          c1 = c\<lparr>m_output := Some out\<rparr>
      in if real_len = - 1 then (- 1, c1) else (0, c1\<lparr>m_converted_content := cstr out\<rparr>))"

text \<open>\<open>None\<close> is \<open>memset\<close> through a NULL \<open>m_output\<close>.\<close>

definition to_utf8 :: "code_env \<Rightarrow> UTF8Converter \<Rightarrow> (int \<times> UTF8Converter) option" where
  "to_utf8 env c =
     (if m_output c = None then None
      else
        (let c1 = c\<lparr>m_converted_content := [], m_output := Some (replicate CONVERTER_MAX_CONTENT_LEN NUL)\<rparr>;
             (t, c2) = detect_code_type env c1
         in if t = EN_GB env then Some (convert_into (from_gb env) c2)
            else if t = EN_BIG5 env then Some (convert_into (from_big5 env) c2)
            else Some (0, c2\<lparr>m_converted_content := cstr (m_input c2)\<rparr>)))"

section \<open>Facts\<close>

lemma cstr_written_room:
  "length written < n \<Longrightarrow> cstr (written @ replicate (n - length written) NUL) = cstr written"
proof -
  assume "length written < n"
  then obtain k where "n - length written = Suc k" by (metis Suc_diff_Suc)
  then show ?thesis by (simp add: cstr_stop)
qed

text \<open>The documented behaviour of a converter: it writes at most what it is given room for.\<close>

definition keeps_room :: "(string \<Rightarrow> int \<Rightarrow> nat \<Rightarrow> int \<times> string) \<Rightarrow> bool" where
  "keeps_room conv \<longleftrightarrow> (\<forall>s len room. length (snd (conv s len room)) \<le> room)"

lemma convert_into_result:
  assumes "keeps_room conv" "m_converted_content c = []"
  shows "m_converted_content (snd (convert_into conv c)) =
      (if fst (convert_into conv c) = 0
       then cstr (snd (conv (m_input c) (m_input_len c) (CONVERTER_MAX_CONTENT_LEN - 1))) else [])"
    and "fst (convert_into conv c) =
      (if fst (conv (m_input c) (m_input_len c) (CONVERTER_MAX_CONTENT_LEN - 1)) = - 1 then - 1 else 0)"
proof -
  obtain len w where cw: "conv (m_input c) (m_input_len c) (CONVERTER_MAX_CONTENT_LEN - 1) = (len, w)" by fastforce
  have "length w \<le> CONVERTER_MAX_CONTENT_LEN - 1" using assms(1) unfolding keeps_room_def by (metis cw snd_conv)
  then have "length w < CONVERTER_MAX_CONTENT_LEN" by (simp add: CONVERTER_MAX_CONTENT_LEN_def)
  then show "m_converted_content (snd (convert_into conv c)) =
      (if fst (convert_into conv c) = 0
       then cstr (snd (conv (m_input c) (m_input_len c) (CONVERTER_MAX_CONTENT_LEN - 1))) else [])"
    and "fst (convert_into conv c) =
      (if fst (conv (m_input c) (m_input_len c) (CONVERTER_MAX_CONTENT_LEN - 1)) = - 1 then - 1 else 0)"
    unfolding convert_into_def cw prod.case Let_def fst_conv snd_conv
    using assms(2) by (simp_all add: cstr_written_room)
qed

text \<open>C34: A page is converted by the converter of its code type, and is taken as it is when it is of another
  type. The result is -1 exactly when the converter was needed and answered -1, and then the content is
  empty, whatever the converter wrote and whatever the page before was; otherwise it is 0 and the content
  is what the converter wrote.\<close>

theorem to_utf8_content:
  assumes "keeps_room (from_gb env)" "keeps_room (from_big5 env)" "m_output c \<noteq> None"
  shows "\<exists>rc c'. to_utf8 env c = Some (rc, c') \<and> m_code_type c' = detect env (m_input c) (m_input_len c) \<and>
    (let t = detect env (m_input c) (m_input_len c);
         gb = from_gb env (m_input c) (m_input_len c) (CONVERTER_MAX_CONTENT_LEN - 1);
         big5 = from_big5 env (m_input c) (m_input_len c) (CONVERTER_MAX_CONTENT_LEN - 1)
     in (rc, m_converted_content c') =
       (if t = EN_GB env then if fst gb = - 1 then (- 1, []) else (0, cstr (snd gb))
        else if t = EN_BIG5 env then if fst big5 = - 1 then (- 1, []) else (0, cstr (snd big5))
        else (0, cstr (m_input c))))"
proof -
  define c2 where "c2 = c\<lparr>m_converted_content := [], m_output := Some (replicate CONVERTER_MAX_CONTENT_LEN NUL),
    m_code_type := detect env (m_input c) (m_input_len c)\<rparr>"
  have c2: "m_converted_content c2 = []" "m_input c2 = m_input c" "m_input_len c2 = m_input_len c"
    "m_code_type c2 = detect env (m_input c) (m_input_len c)"
    by (simp_all add: c2_def)
  let ?t = "detect env (m_input c) (m_input_len c)"
  have run: "to_utf8 env c = Some (if ?t = EN_GB env then convert_into (from_gb env) c2
     else if ?t = EN_BIG5 env then convert_into (from_big5 env) c2
     else (0, c2\<lparr>m_converted_content := cstr (m_input c2)\<rparr>))"
    using assms(3) by (simp add: to_utf8_def detect_code_type_def Let_def c2_def)
  have ty: "m_code_type (snd (convert_into conv c2)) = ?t" for conv
    by (simp add: convert_into_def Let_def c2 split: prod.split)
  have res: "(fst (convert_into conv c2), m_converted_content (snd (convert_into conv c2))) =
      (let r = conv (m_input c) (m_input_len c) (CONVERTER_MAX_CONTENT_LEN - 1)
       in if fst r = - 1 then (- 1, []) else (0, cstr (snd r)))" if "keeps_room conv" for conv
    using convert_into_result [OF that c2(1)] by (simp add: c2 Let_def)
  show ?thesis
  proof (intro exI conjI)
    let ?r = "the (to_utf8 env c)"
    show "to_utf8 env c = Some (fst ?r, snd ?r)" by (simp add: run)
    show "m_code_type (snd ?r) = ?t" by (simp add: run ty c2)
    show "let t = ?t;
         gb = from_gb env (m_input c) (m_input_len c) (CONVERTER_MAX_CONTENT_LEN - 1);
         big5 = from_big5 env (m_input c) (m_input_len c) (CONVERTER_MAX_CONTENT_LEN - 1)
     in (fst ?r, m_converted_content (snd ?r)) =
       (if t = EN_GB env then if fst gb = - 1 then (- 1, []) else (0, cstr (snd gb))
        else if t = EN_BIG5 env then if fst big5 = - 1 then (- 1, []) else (0, cstr (snd big5))
        else (0, cstr (m_input c)))"
      using res [OF assms(1)] res [OF assms(2)] unfolding run Let_def by (simp add: c2)
  qed
qed

text \<open>A recogniser that takes texts with a byte above 127 for GB, and a converter that marks what it converts and
  gives up on the byte 255 after having written something.\<close>

definition sample_codes :: code_env where
  "sample_codes = \<lparr>EN_GB = 2, EN_BIG5 = 4, detect = \<lambda>s n. if list_ex (\<lambda>c. of_char c > (127 :: nat)) s then 2 else 5,
     from_gb = \<lambda>s n room. (if list_ex (\<lambda>c. of_char c = (255 :: nat)) s then - 1 else 1, take room ''u'' ),
     from_big5 = \<lambda>_ _ _. (- 1, []), recognizer_ok = True, gb_ok = True, big5_ok = True, output_ok = True\<rparr>"

lemma to_utf8_content_witness:
  "(\<exists>c'. to_utf8 sample_codes ((utf8_new 0 [char_of (200 :: nat)] 1)\<lparr>m_output := Some []\<rparr>) = Some (0, c') \<and>
      m_converted_content c' = ''u'') \<and>
   (\<exists>c'. to_utf8 sample_codes ((utf8_new 0 [char_of (255 :: nat)] 1)\<lparr>m_output := Some []\<rparr>) = Some (- 1, c') \<and>
      m_converted_content c' = [])"
proof -
  have room: "keeps_room (from_gb sample_codes)" "keeps_room (from_big5 sample_codes)"
    by (simp_all add: keeps_room_def sample_codes_def)
  let ?c1 = "(utf8_new 0 [char_of (200 :: nat)] 1)\<lparr>m_output := Some []\<rparr>"
  let ?c2 = "(utf8_new 0 [char_of (255 :: nat)] 1)\<lparr>m_output := Some []\<rparr>"
  have f: "m_output ?c1 \<noteq> None" "m_output ?c2 \<noteq> None"
    "detect sample_codes (m_input ?c1) (m_input_len ?c1) = EN_GB sample_codes"
    "detect sample_codes (m_input ?c2) (m_input_len ?c2) = EN_GB sample_codes"
    "from_gb sample_codes (m_input ?c1) (m_input_len ?c1) (CONVERTER_MAX_CONTENT_LEN - 1) = (1, ''u'')"
    "from_gb sample_codes (m_input ?c2) (m_input_len ?c2) (CONVERTER_MAX_CONTENT_LEN - 1) = (- 1, ''u'')"
    by (simp_all add: utf8_new_def sample_codes_def CONVERTER_MAX_CONTENT_LEN_def)
  have u: "cstr ''u'' = ''u''" by code_simp
  obtain rc1 c1 where r1: "to_utf8 sample_codes ?c1 = Some (rc1, c1)" "(rc1, m_converted_content c1) = (0, ''u'')"
    using to_utf8_content [OF room f(1), unfolded Let_def f u] by auto
  obtain rc2 c2 where r2: "to_utf8 sample_codes ?c2 = Some (rc2, c2)" "(rc2, m_converted_content c2) = (- 1, [])"
    using to_utf8_content [OF room f(2), unfolded Let_def f u] by auto
  show ?thesis using r1 r2 by simp
qed

end
