(* ===== verification/Crawl.thy ===== *)
theory Crawl
  imports Spider_Load Url_Recognizer Utf8_Converter
begin

text \<open>
  \<open>CSpider::write_to_queue\<close> and one turn of the loop of \<open>crawl_thread\<close> (spider.cpp): a URL is taken
  from the selected queue, located, fetched with its redirects, recorded, converted, and its links
  go into the pools. The turn is a composition of four stages; a \<open>continue\<close> of the code is the
  end of a stage with a result. What the turn meets outside the repository is \<open>crawl_env\<close>.
\<close>

section \<open>Links into pools\<close>

definition ITEM_LINK :: int where "ITEM_LINK = 1"
definition CATE_LINK :: int where "CATE_LINK = 2"

text \<open>\<open>ty\<close> is \<open>get_type\<close>, \<open>norm\<close> is \<open>normalize\<close>; what \<open>which\<close> is decides between the priority and
  the ordinary pools.\<close>

definition push_item_link :: "queue_type \<Rightarrow> UrlInfo \<Rightarrow> CSpider \<Rightarrow> CSpider" where
  "push_item_link which ui sp =
     (if which = QUEUE_TYPE_CPQ then sp\<lparr>mp_ipq := push_url (ui\<lparr>ui_type := PITEM\<rparr>) (mp_ipq sp)\<rparr>
      else sp\<lparr>mp_ioq := push_url (ui\<lparr>ui_type := OITEM\<rparr>) (mp_ioq sp)\<rparr>)"

definition push_cate_link :: "queue_type \<Rightarrow> UrlInfo \<Rightarrow> CSpider \<Rightarrow> CSpider" where
  "push_cate_link which ui sp =
     (if which = QUEUE_TYPE_CPQ then sp\<lparr>mp_cpq := push_url (ui\<lparr>ui_type := PCATE\<rparr>) (mp_cpq sp)\<rparr>
      else sp\<lparr>mp_coq := push_url (ui\<lparr>ui_type := OCATE\<rparr>) (mp_coq sp)\<rparr>)"

definition write_link :: "url_parser \<Rightarrow> (string \<Rightarrow> int) \<Rightarrow> (string \<Rightarrow> string) \<Rightarrow> queue_type \<Rightarrow> string \<Rightarrow> CSpider \<Rightarrow> CSpider" where
  "write_link uc ty norm which link sp =
     (let conf = m_spider_conf sp
      in case uc link of None \<Rightarrow> sp
         | Some parts \<Rightarrow>
             if ty link = ITEM_LINK
             then (if extract_item_url conf \<noteq> 0
                   then push_item_link which
                     ((url_info 0 parts)\<lparr>ui_url := (if normalize_url conf \<noteq> 0 then norm link else link)\<rparr>) sp
                   else sp)
             else if ty link = CATE_LINK
             then (if extract_cate_url conf \<noteq> 0
                   then push_cate_link which ((url_info 0 parts)\<lparr>ui_url := link\<rparr>) sp else sp)
             else sp)"

definition write_to_queue :: "url_parser \<Rightarrow> (string \<Rightarrow> int) \<Rightarrow> (string \<Rightarrow> string) \<Rightarrow> queue_type \<Rightarrow> string list
    \<Rightarrow> CSpider \<Rightarrow> CSpider" where
  "write_to_queue uc ty norm which links sp = fold (write_link uc ty norm which) links sp"

section \<open>A turn of the crawling thread\<close>

text \<open>What a fetch returns: the length or a negative code, the \<open>Location\<close> and the page; NULL is \<open>None\<close>.\<close>

record fetched =
  f_length :: int
  f_location :: "string option"
  f_page :: "string option"

record crawl_env =
  first_page :: "page_env \<times> tm"
  parse_url :: url_parser
  dns_net :: "string \<Rightarrow> (int \<Rightarrow> dns_env) \<times> string"
  clock_ms :: int
  fetch :: "nat \<Rightarrow> string \<Rightarrow> string \<Rightarrow> fetched"
  list_ok :: bool
  clock_s :: nat
  lock_rc :: int
  codes :: code_env
  links_of :: "string \<Rightarrow> string \<Rightarrow> string list"
  link_type :: "string \<Rightarrow> int"
  link_norm :: "string \<Rightarrow> string"
  last_page :: "page_env \<times> tm"
  sign_of :: "string \<Rightarrow> 32 word \<times> 32 word"
  base64_of :: "string \<Rightarrow> string"

record crawl_state =
  t_spider :: CSpider
  t_files :: page_fs
  t_conv :: UTF8Converter

datatype crawl_result =
  Null_page_error | Queue_empty | Crawl_fail | Dns_fail | Format_error | Delayed | Not_found
  | Redirect_not_found | Net_fail | Size_fail | List_error | Convert_error | Page_error | Crawled

text \<open>A stage ends the turn with a result or hands a value to the next stage; \<open>None\<close> is undefined.\<close>

type_synonym 'a stage = "((crawl_result + 'a) \<times> crawl_state) option"

definition then_stage :: "'a stage \<Rightarrow> ('a \<Rightarrow> crawl_state \<Rightarrow> 'b stage) \<Rightarrow> 'b stage" where
  "then_stage r k = (case r of None \<Rightarrow> None | Some (Inl c, s) \<Rightarrow> Some (Inl c, s) | Some (Inr a, s) \<Rightarrow> k a s)"

definition on_spider :: "(CSpider \<Rightarrow> CSpider) \<Rightarrow> crawl_state \<Rightarrow> crawl_state" where
  "on_spider f s = s\<lparr>t_spider := f (t_spider s)\<rparr>"

text \<open>\<open>p_selected_queue->push(qi)\<close>, whose result the code ignores.\<close>

definition requeue :: "SSQItem \<Rightarrow> CSpider \<Rightarrow> CSpider" where
  "requeue qi sp = sp\<lparr>mp_selected_queue := snd (sq_push qi (mp_selected_queue sp))\<rparr>"

text \<open>\<open>append_error\<close> to the list of failed URLs; a failure is only logged.\<close>

definition end_with_error :: "crawl_env \<Rightarrow> crawl_result \<Rightarrow> string \<Rightarrow> string \<Rightarrow> crawl_state \<Rightarrow> 'a stage" where
  "end_with_error env r url err s =
     map_option (\<lambda>(_, o'). (Inl r, on_spider (\<lambda>sp. sp\<lparr>mp_fail_output := o'\<rparr>) s))
       (out_append_error (list_ok env) (clock_s env) url err (mp_fail_output (t_spider s)))"

definition take_item :: "crawl_env \<Rightarrow> crawl_state \<Rightarrow> SSQItem stage" where
  "take_item env s =
     (let sp = t_spider s; conf = m_spider_conf sp
      in case page_append (fst (first_page env)) conf (snd (first_page env)) [] False (mp_page_output sp) (t_files s) of
           None \<Rightarrow> None
         | Some (rc, po, fs) \<Rightarrow>
             (let s1 = s\<lparr>t_spider := sp\<lparr>mp_page_output := po\<rparr>, t_files := fs\<rparr>
              in if rc = - 1 then Some (Inl Null_page_error, s1)
                 else (case sq_pop (mp_selected_queue sp) of
                         (None, _) \<Rightarrow> Some (Inl Queue_empty, s1)
                       | (Some qi, q) \<Rightarrow>
                           (let s2 = on_spider (\<lambda>sp. sp\<lparr>mp_selected_queue := q\<rparr>) s1
                            in if fail_count qi > max_url_fail_count conf
                               then end_with_error env Crawl_fail (sq_url qi) ''CRAWL_FAIL'' s2
                               else if dns_count qi > max_dns_query_count conf
                               then end_with_error env Dns_fail (sq_url qi) ''DNS_FAIL'' s2
                               else Some (Inr qi, s2)))))"

text \<open>The item with its counts as they are now, and where its URL is.\<close>

record located =
  l_item :: SSQItem
  l_site :: string
  l_domain :: string
  l_ip :: string

text \<open>A site without an address is counted and put back, and then the turn goes on all the same.\<close>

definition locate :: "crawl_env \<Rightarrow> SSQItem \<Rightarrow> crawl_state \<Rightarrow> located stage" where
  "locate env qi s =
     (let conf = m_spider_conf (t_spider s)
      in case parse_url env (sq_url qi) of
           None \<Rightarrow> end_with_error env Format_error (sq_url qi) ''FORMAT_ERROR'' s
         | Some (_, site, domain) \<Rightarrow>
             (case get_site_ip conf (dns_net env site) (cstr site) (m_dns_client (t_spider s)) of
                None \<Rightarrow> None
              | Some (ip, cache) \<Rightarrow>
                  (let s1 = on_spider (\<lambda>sp. sp\<lparr>m_dns_client := cache\<rparr>) s;
                       qi1 = (if ip = no_ip then qi\<lparr>dns_count := dns_count qi + 1\<rparr> else qi);
                       s2 = (if ip = no_ip then on_spider (requeue qi1) s1 else s1)
                   in case is_crawl_enabled conf (clock_ms env) site (mp_level_pool (t_spider s2)) of
                        (False, lp) \<Rightarrow> Some (Inl Delayed, on_spider (\<lambda>sp. requeue qi1 (sp\<lparr>mp_level_pool := lp\<rparr>)) s2)
                      | (True, lp) \<Rightarrow>
                          Some (Inr \<lparr>l_item = qi1, l_site = site, l_domain = domain, l_ip = ip\<rparr>,
                                on_spider (\<lambda>sp. sp\<lparr>mp_level_pool := lp\<rparr>) s2))))"

text \<open>
  The redirects: \<open>k\<close> more may be followed, \<open>n\<close> fetches have been made. An absolute redirect is
  resolved again only when its site differs from the first one; \<open>ip\<close> is the address of the last
  fetch. The result is the last fetch and the DNS cache.
\<close>

fun follow :: "crawl_env \<Rightarrow> CSpiderConf \<Rightarrow> string \<Rightarrow> nat \<Rightarrow> nat \<Rightarrow> string \<Rightarrow> fetched \<Rightarrow> ip_map \<Rightarrow> (fetched \<times> ip_map) option" where
  "follow env conf site 0 n ip r cache = Some (r, cache)"
| "follow env conf site (Suc k) n ip r cache =
     (if f_length r \<noteq> - 300 then Some (r, cache)
      else (case f_location r of None \<Rightarrow> Some (r, cache)
            | Some loc \<Rightarrow>
                if take 1 loc = ''/''
                then follow env conf site k (Suc n) ip (fetch env n (''http://'' @ site @ loc) ip) cache
                else (case parse_url env loc of None \<Rightarrow> Some (r, cache)
                      | Some (url, site', _) \<Rightarrow>
                          if site' \<noteq> site
                          then (case get_site_ip conf (dns_net env site') (cstr site') cache of None \<Rightarrow> None
                                | Some (ip', cache') \<Rightarrow>
                                    if ip' = no_ip then Some (r, cache')
                                    else follow env conf site k (Suc n) ip' (fetch env n url ip') cache')
                          else follow env conf site k (Suc n) ip (fetch env n url ip) cache)))"

definition finish :: "string \<Rightarrow> CSpider \<Rightarrow> CSpider" where
  "finish site sp = sp\<lparr>mp_level_pool := finish_crawl site (mp_level_pool sp)\<rparr>"

text \<open>The test of the length: both conditions at once.\<close>

definition size_fails :: "CSpiderConf \<Rightarrow> int \<Rightarrow> bool" where
  "size_fails conf len \<longleftrightarrow> len \<le> min_page_len conf \<and> len > max_page_len conf"

definition fetch_page :: "crawl_env \<Rightarrow> located \<Rightarrow> crawl_state \<Rightarrow> (located \<times> fetched) stage" where
  "fetch_page env l s =
     (let conf = m_spider_conf (t_spider s); url = sq_url (l_item l); r0 = fetch env 0 url (l_ip l)
      in if f_length r0 = - 404
         then end_with_error env Not_found url ''NOT_FOUND'' (on_spider (finish (l_site l)) s)
         else (case follow env conf (l_site l) (nat (max_url_redirect_count conf)) 1 (l_ip l) r0
                      (m_dns_client (t_spider s)) of
                 None \<Rightarrow> None
               | Some (r, cache) \<Rightarrow>
                   (let s1 = on_spider (finish (l_site l) \<circ> m_dns_client_update (\<lambda>_. cache)) s
                    in if f_length r = - 404
                       then end_with_error env Redirect_not_found url ''REDIRECT_NOT_FOUND'' s1
                       else if f_length r < 0
                       then Some (Inl Net_fail, on_spider (requeue ((l_item l)\<lparr>fail_count := fail_count (l_item l) + 1\<rparr>)) s1)
                       else if size_fails conf (f_length r)
                       then end_with_error env Size_fail url (''CONTENT_LEN_INVALID ('' @ dec_int (f_length r) @ '')'') s1
                       else Some (Inr (l, r), s1))))"

definition is_category :: "queue_type \<Rightarrow> bool" where
  "is_category q \<longleftrightarrow> q = QUEUE_TYPE_CPQ \<or> q = QUEUE_TYPE_COQ"

text \<open>The URL goes to the list of its kind and is counted for its domain.\<close>

definition record_crawl :: "crawl_env \<Rightarrow> located \<times> fetched \<Rightarrow> crawl_state \<Rightarrow> (located \<times> fetched) stage" where
  "record_crawl env lr s =
     (let l = fst lr; qi = l_item l; sp = t_spider s
      in if is_category (which_queue qi)
         then map_option (\<lambda>(rc, o'). (if rc = - 1 then Inl List_error else Inr lr,
                on_spider (\<lambda>sp. sp\<lparr>m_statis := snd (update_domain_cate_done (lock_rc env) (l_domain l) (m_statis sp)),
                                  mp_cate_output := o'\<rparr>) s))
              (out_append (list_ok env) (clock_s env) (sq_url qi) (mp_cate_output sp))
         else map_option (\<lambda>(rc, o'). (if rc = - 1 then Inl List_error else Inr lr,
                on_spider (\<lambda>sp. sp\<lparr>m_statis := snd (update_domain_item_done (lock_rc env) (l_domain l) (m_statis sp)),
                                  mp_item_output := o'\<rparr>) s))
              (out_append (list_ok env) (clock_s env) (sq_url qi) (mp_item_output sp)))"

definition PAGE_LIST_BUF_LEN :: nat where "PAGE_LIST_BUF_LEN = 2097152"

text \<open>\<open>strlen\<close> of a page that is NULL is undefined.\<close>

definition convert_page :: "crawl_env \<Rightarrow> located \<times> fetched \<Rightarrow> crawl_state \<Rightarrow> (located \<times> string) stage" where
  "convert_page env lr s =
     (case f_page (snd lr) of None \<Rightarrow> None
      | Some page \<Rightarrow>
          (case to_utf8 (codes env) (set_input (cstr page) (int (length (cstr page))) (t_conv s)) of None \<Rightarrow> None
           | Some (rc, conv) \<Rightarrow>
               Some (if rc = - 1 then Inl Convert_error else Inr (fst lr, m_converted_content conv), s\<lparr>t_conv := conv\<rparr>)))"

definition store_page :: "crawl_env \<Rightarrow> located \<times> string \<Rightarrow> crawl_state \<Rightarrow> unit stage" where
  "store_page env lc s =
     (let l = fst lc; qi = l_item l; url = sq_url qi; conf = m_spider_conf (t_spider s);
          s1 = on_spider (write_to_queue (parse_url env) (link_type env) (link_norm env) (which_queue qi)
                 (links_of env url (snd lc))) s
      in if \<not> is_category (which_queue qi) \<and> write_page conf \<noteq> 0
         then (case write_page_list (fst (last_page env)) conf (snd (last_page env)) (sign_of env) (base64_of env)
                      (clock_s env) url (l_domain l) (l_site l) 0 (snd lc) PAGE_LIST_BUF_LEN
                      (mp_page_output (t_spider s1)) (t_files s1) of
                 None \<Rightarrow> None
               | Some (rc, po, fs) \<Rightarrow>
                   Some (Inl (if rc = - 1 then Page_error else Crawled),
                     (on_spider (\<lambda>sp. sp\<lparr>mp_page_output := po\<rparr>) s1)\<lparr>t_files := fs\<rparr>))
         else Some (Inl Crawled, s1))"

definition crawl_turn :: "crawl_env \<Rightarrow> crawl_state \<Rightarrow> (crawl_result \<times> crawl_state) option" where
  "crawl_turn env s =
     (case then_stage (take_item env s) (\<lambda>qi s1.
           then_stage (locate env qi s1) (\<lambda>l s2.
           then_stage (fetch_page env l s2) (\<lambda>lr s3.
           then_stage (record_crawl env lr s3) (\<lambda>lr' s4.
           then_stage (convert_page env lr' s4) (store_page env))))) of
        None \<Rightarrow> None | Some (Inl r, s') \<Rightarrow> Some (r, s') | Some (Inr _, s') \<Rightarrow> Some (Crawled, s'))"

section \<open>What the stages leave alone\<close>

definition same_core :: "crawl_state \<Rightarrow> crawl_state \<Rightarrow> bool" where
  "same_core s s' \<longleftrightarrow> mp_selected_queue (t_spider s') = mp_selected_queue (t_spider s) \<and>
     mp_level_pool (t_spider s') = mp_level_pool (t_spider s) \<and> m_spider_conf (t_spider s') = m_spider_conf (t_spider s)"

lemma on_spider_simps [simp]:
  "t_spider (on_spider f s) = f (t_spider s)" "t_files (on_spider f s) = t_files s" "t_conv (on_spider f s) = t_conv s"
  by (simp_all add: on_spider_def)

lemma same_core_trans: "same_core s s1 \<Longrightarrow> same_core s1 s2 \<Longrightarrow> same_core s s2"
  by (simp add: same_core_def)

lemma end_with_error_core:
  "end_with_error env r url err s = Some (x, s') \<Longrightarrow> x = Inl r \<and> same_core s s'"
  by (auto simp: end_with_error_def same_core_def)

lemma write_to_queue_core:
  "mp_selected_queue (write_to_queue uc ty norm which links sp) = mp_selected_queue sp"
  "mp_level_pool (write_to_queue uc ty norm which links sp) = mp_level_pool sp"
  "m_spider_conf (write_to_queue uc ty norm which links sp) = m_spider_conf sp"
  unfolding write_to_queue_def
  by (induction links arbitrary: sp)
    (simp_all add: write_link_def push_item_link_def push_cate_link_def Let_def split: option.split)

lemma record_crawl_core:
  "record_crawl env lr s = Some (x, s') \<Longrightarrow> same_core s s' \<and> (x = Inr lr \<or> x = Inl List_error)"
  by (auto simp: record_crawl_def same_core_def Let_def split: if_splits)

lemma convert_page_core:
  "convert_page env lr s = Some (x, s') \<Longrightarrow>
   same_core s s' \<and> t_spider s' = t_spider s \<and> (x = Inl Convert_error \<or> (\<exists>c. x = Inr (fst lr, c)))"
  by (auto simp: convert_page_def same_core_def split: option.splits if_splits)

lemma store_page_core:
  "store_page env lc s = Some (x, s') \<Longrightarrow> same_core s s' \<and> (x = Inl Crawled \<or> x = Inl Page_error)"
  by (auto simp: store_page_def same_core_def Let_def write_to_queue_core split: option.splits if_splits)

text \<open>The stages behind the fetch, together.\<close>

definition keep_page :: "crawl_env \<Rightarrow> located \<times> fetched \<Rightarrow> crawl_state \<Rightarrow> unit stage" where
  "keep_page env lr s =
     then_stage (record_crawl env lr s) (\<lambda>lr' s4. then_stage (convert_page env lr' s4) (store_page env))"

lemma keep_page_core:
  assumes "keep_page env lr s = Some (x, s')"
  shows "same_core s s' \<and> x \<in> {Inl List_error, Inl Convert_error, Inl Page_error, Inl Crawled}"
proof -
  obtain x1 s1 where 1: "record_crawl env lr s = Some (x1, s1)"
    using assms by (auto simp: keep_page_def then_stage_def split: option.splits)
  note c1 = record_crawl_core [OF 1]
  show ?thesis
  proof (cases x1)
    case (Inl r)
    with assms 1 c1 show ?thesis by (auto simp: keep_page_def then_stage_def)
  next
    case (Inr lr')
    then have 2: "then_stage (convert_page env lr' s1) (store_page env) = Some (x, s')"
      using assms 1 by (simp add: keep_page_def then_stage_def)
    then obtain x2 s2 where 3: "convert_page env lr' s1 = Some (x2, s2)"
      by (auto simp: then_stage_def split: option.splits)
    note c2 = convert_page_core [OF 3]
    show ?thesis
    proof (cases x2)
      case (Inl r)
      with 2 3 c1 c2 show ?thesis by (auto simp: then_stage_def intro: same_core_trans)
    next
      case (Inr lc)
      then have "store_page env lc s2 = Some (x, s')" using 2 3 by (simp add: then_stage_def)
      from store_page_core [OF this] c1 c2 show ?thesis by (auto intro: same_core_trans)
    qed
  qed
qed

lemma crawl_turn_stages:
  "crawl_turn env s = Some (r, s') \<longleftrightarrow>
     (\<exists>x. then_stage (take_item env s) (\<lambda>qi s1. then_stage (locate env qi s1) (\<lambda>l s2.
            then_stage (fetch_page env l s2) (keep_page env))) = Some (x, s') \<and>
          r = (case x of Inl r \<Rightarrow> r | Inr _ \<Rightarrow> Crawled))"
  unfolding crawl_turn_def keep_page_def [abs_def]
  by (auto split: option.splits sum.splits)

text \<open>A turn, by the stage in which it ends.\<close>

lemma crawl_turn_cases:
  assumes "crawl_turn env s = Some (r, s')"
  obtains (take) "take_item env s = Some (Inl r, s')"
  | (locate) qi s1 where "take_item env s = Some (Inr qi, s1)" "locate env qi s1 = Some (Inl r, s')"
  | (fetch) qi s1 l s2 where "take_item env s = Some (Inr qi, s1)" "locate env qi s1 = Some (Inr l, s2)"
      "fetch_page env l s2 = Some (Inl r, s')"
  | (keep) qi s1 l s2 lr s3 where "take_item env s = Some (Inr qi, s1)" "locate env qi s1 = Some (Inr l, s2)"
      "fetch_page env l s2 = Some (Inr lr, s3)" "keep_page env lr s3 = Some (Inl r, s')"
proof -
  obtain x where x: "then_stage (take_item env s) (\<lambda>qi s1. then_stage (locate env qi s1) (\<lambda>l s2.
      then_stage (fetch_page env l s2) (keep_page env))) = Some (x, s')"
    and r: "r = (case x of Inl r \<Rightarrow> r | Inr _ \<Rightarrow> Crawled)"
    using assms unfolding crawl_turn_stages by blast
  obtain x1 s1 where 1: "take_item env s = Some (x1, s1)"
    using x by (auto simp: then_stage_def split: option.splits)
  show thesis
  proof (cases x1)
    case (Inl r1)
    with x r 1 have "take_item env s = Some (Inl r, s')" by (auto simp: then_stage_def)
    then show thesis by (rule that(1))
  next
    case (Inr qi)
    then have x: "then_stage (locate env qi s1) (\<lambda>l s2. then_stage (fetch_page env l s2) (keep_page env)) = Some (x, s')"
      using x 1 by (simp add: then_stage_def)
    then obtain x2 s2 where 2: "locate env qi s1 = Some (x2, s2)"
      by (auto simp: then_stage_def split: option.splits)
    show thesis
    proof (cases x2)
      case (Inl r1)
      with x r 2 have "locate env qi s1 = Some (Inl r, s')" by (auto simp: then_stage_def)
      with 1 \<open>x1 = Inr qi\<close> that(2) show thesis by blast
    next
      case (Inr l)
      then have x: "then_stage (fetch_page env l s2) (keep_page env) = Some (x, s')"
        using x 2 by (simp add: then_stage_def)
      then obtain x3 s3 where 3: "fetch_page env l s2 = Some (x3, s3)"
        by (auto simp: then_stage_def split: option.splits)
      show thesis
      proof (cases x3)
        case (Inl r1)
        with x r 3 have "fetch_page env l s2 = Some (Inl r, s')" by (auto simp: then_stage_def)
        with 1 2 \<open>x1 = Inr qi\<close> \<open>x2 = Inr l\<close> that(3) show thesis by blast
      next
        case (Inr lr)
        then have k: "keep_page env lr s3 = Some (x, s')" using x 3 by (simp add: then_stage_def)
        with keep_page_core [OF k] r have "keep_page env lr s3 = Some (Inl r, s')" by auto
        with 1 2 3 \<open>x1 = Inr qi\<close> \<open>x2 = Inr l\<close> Inr that(4) show thesis by blast
      qed
    qed
  qed
qed

section \<open>What the stages do to the queue and to the level pool\<close>

lemma take_item_effect:
  assumes "take_item env s = Some (x, s1)"
  shows "mp_level_pool (t_spider s1) = mp_level_pool (t_spider s) \<and> m_spider_conf (t_spider s1) = m_spider_conf (t_spider s) \<and>
    (case x of
       Inr qi \<Rightarrow> sq_pop (mp_selected_queue (t_spider s)) = (Some qi, mp_selected_queue (t_spider s1)) \<and>
         fail_count qi \<le> max_url_fail_count (m_spider_conf (t_spider s)) \<and>
         dns_count qi \<le> max_dns_query_count (m_spider_conf (t_spider s)) \<and>
         m_dns_client (t_spider s1) = m_dns_client (t_spider s)
     | Inl r \<Rightarrow> r \<in> {Null_page_error, Queue_empty} \<and> mp_selected_queue (t_spider s1) = mp_selected_queue (t_spider s) \<or>
         r \<in> {Crawl_fail, Dns_fail} \<and> (\<exists>qi. sq_pop (mp_selected_queue (t_spider s)) = (Some qi, mp_selected_queue (t_spider s1))))"
  using assms
  by (auto simp: take_item_def Let_def same_core_def split: option.splits prod.splits if_splits
      dest!: end_with_error_core)

definition without_address :: "crawl_env \<Rightarrow> CSpider \<Rightarrow> SSQItem \<Rightarrow> bool" where
  "without_address env sp qi =
     (case parse_url env (sq_url qi) of None \<Rightarrow> False
      | Some (_, site, _) \<Rightarrow>
          map_option fst (get_site_ip (m_spider_conf sp) (dns_net env site) (cstr site) (m_dns_client sp)) = Some no_ip)"

definition dns_counted :: "bool \<Rightarrow> SSQItem \<Rightarrow> SSQItem" where
  "dns_counted b qi = (if b then qi\<lparr>dns_count := dns_count qi + 1\<rparr> else qi)"

lemma locate_effect:
  assumes "locate env qi s = Some (x, s1)"
  defines "b \<equiv> without_address env (t_spider s) qi"
  shows "m_spider_conf (t_spider s1) = m_spider_conf (t_spider s) \<and>
    (let q = mp_selected_queue (t_spider s);
         q1 = (if b then snd (sq_push (dns_counted b qi) q) else q)
     in case x of
       Inr l \<Rightarrow> l_item l = dns_counted b qi \<and> mp_selected_queue (t_spider s1) = q1 \<and>
         (\<exists>now. is_crawl_enabled (m_spider_conf (t_spider s)) now (l_site l) (mp_level_pool (t_spider s)) =
            (True, mp_level_pool (t_spider s1)))
     | Inl r \<Rightarrow> mp_level_pool (t_spider s1) = mp_level_pool (t_spider s) \<and>
         (r = Format_error \<and> \<not> b \<and> mp_selected_queue (t_spider s1) = q \<or>
          r = Delayed \<and> mp_selected_queue (t_spider s1) = snd (sq_push (dns_counted b qi) q1)))"
proof -
  have keep: "is_crawl_enabled conf now site lm = (False, lm') \<Longrightarrow> lm' = lm" for conf now site lm lm'
    by (auto simp: is_crawl_enabled_def split: option.splits if_splits)
  show ?thesis
  proof (cases "parse_url env (sq_url qi)")
    case None
    with assms(1) show ?thesis
      by (auto simp: locate_def b_def without_address_def same_core_def Let_def dest!: end_with_error_core)
  next
    case (Some parts)
    obtain u site domain where p: "parse_url env (sq_url qi) = Some (u, site, domain)"
      using Some by (cases parts) auto
    obtain ip cache where ip: "get_site_ip (m_spider_conf (t_spider s)) (dns_net env site) (cstr site) (m_dns_client (t_spider s)) = Some (ip, cache)"
      using assms(1) p by (auto simp: locate_def Let_def split: option.splits)
    have b: "b \<longleftrightarrow> ip = no_ip" by (simp add: b_def without_address_def p ip)
    show ?thesis
      using assms(1) p ip
      by (auto simp: locate_def Let_def b dns_counted_def requeue_def split: prod.splits bool.splits if_splits
          dest!: keep)
  qed
qed

lemma fetch_page_effect:
  assumes "fetch_page env l s = Some (x, s1)"
  shows "m_spider_conf (t_spider s1) = m_spider_conf (t_spider s) \<and>
    mp_level_pool (t_spider s1) = finish_crawl (l_site l) (mp_level_pool (t_spider s)) \<and>
    (case x of Inr lr \<Rightarrow> fst lr = l \<and> mp_selected_queue (t_spider s1) = mp_selected_queue (t_spider s)
     | Inl r \<Rightarrow> r \<in> {Not_found, Redirect_not_found, Size_fail} \<and> mp_selected_queue (t_spider s1) = mp_selected_queue (t_spider s) \<or>
         r = Net_fail \<and> mp_selected_queue (t_spider s1) =
           snd (sq_push ((l_item l)\<lparr>fail_count := fail_count (l_item l) + 1\<rparr>) (mp_selected_queue (t_spider s))))"
  using assms
  by (auto simp: fetch_page_def Let_def same_core_def finish_def requeue_def split: option.splits prod.splits if_splits
      dest!: end_with_error_core)

lemma grant_then_finish:
  "is_crawl_enabled conf now site lm = (True, lm') \<Longrightarrow> running (finish_crawl site lm') s = running lm s"
  by (auto simp: spider_defs split: option.splits if_splits)

lemma crawl_turn_running:
  assumes "crawl_turn env s = Some (r, s')"
  shows "running (mp_level_pool (t_spider s')) site = running (mp_level_pool (t_spider s)) site"
proof (rule crawl_turn_cases [OF assms])
  assume "take_item env s = Some (Inl r, s')"
  from take_item_effect [OF this] show ?thesis by simp
next
  fix qi s1
  assume "take_item env s = Some (Inr qi, s1)" "locate env qi s1 = Some (Inl r, s')"
  from take_item_effect [OF this(1)] locate_effect [OF this(2)] show ?thesis by (simp add: Let_def)
next
  fix qi s1 l s2
  assume "take_item env s = Some (Inr qi, s1)" "locate env qi s1 = Some (Inr l, s2)" "fetch_page env l s2 = Some (Inl r, s')"
  from take_item_effect [OF this(1)] locate_effect [OF this(2)] fetch_page_effect [OF this(3)]
  show ?thesis by (auto simp: Let_def grant_then_finish)
next
  fix qi s1 l s2 lr s3
  assume "take_item env s = Some (Inr qi, s1)" "locate env qi s1 = Some (Inr l, s2)"
    "fetch_page env l s2 = Some (Inr lr, s3)" "keep_page env lr s3 = Some (Inl r, s')"
  from take_item_effect [OF this(1)] locate_effect [OF this(2)] fetch_page_effect [OF this(3)] keep_page_core [OF this(4)]
  show ?thesis by (auto simp: Let_def grant_then_finish same_core_def)
qed

lemma sq_pop_some:
  "sq_pop q = (Some qi, q1) \<Longrightarrow> \<exists>rest. m_queue q = qi # rest \<and> m_queue q1 = rest \<and> m_size q1 = m_size q \<and> (sq_inv q \<longrightarrow> sq_inv q1)"
  by (auto simp: sq_pop_def sq_inv_def split: list.splits)

lemma sq_push_room:
  "sq_inv q \<Longrightarrow> int (length (m_queue q)) < m_size q \<Longrightarrow>
   sq_inv (snd (sq_push x q)) \<and> m_queue (snd (sq_push x q)) = m_queue q @ [x] \<and> m_size (snd (sq_push x q)) = m_size q"
  by (auto simp: sq_push_def sq_inv_def)

lemma sq_push_set: "set (m_queue (snd (sq_push x q))) \<subseteq> insert x (set (m_queue q))"
  by (auto simp: sq_push_def)

definition items_all :: "(SSQItem \<Rightarrow> bool) \<Rightarrow> CSelectedQueue \<Rightarrow> bool" where
  "items_all P q \<longleftrightarrow> (\<forall>qi \<in> set (m_queue q). P qi)"

abbreviation queue_all :: "(SSQItem \<Rightarrow> bool) \<Rightarrow> crawl_state \<Rightarrow> bool" where
  "queue_all P s \<equiv> items_all P (mp_selected_queue (t_spider s))"

lemma items_all_push: "items_all P q \<Longrightarrow> P x \<Longrightarrow> items_all P (snd (sq_push x q))"
  unfolding items_all_def using sq_push_set [of x q] by blast

lemma items_all_pop: "items_all P q \<Longrightarrow> sq_pop q = (Some x, q1) \<Longrightarrow> items_all P q1"
  by (auto simp: items_all_def dest!: sq_pop_some)

lemma take_item_all:
  assumes "take_item env s = Some (x, s1)" "queue_all P s"
  shows "queue_all P s1"
  using take_item_effect [OF assms(1)] assms(2) by (cases x) (auto dest: items_all_pop)

lemma locate_all:
  assumes "locate env qi s = Some (x, s1)" "queue_all P s" "\<And>b. P (dns_counted b qi)"
  shows "queue_all P s1"
proof -
  let ?q = "mp_selected_queue (t_spider s)" and ?b = "without_address env (t_spider s) qi"
  define q1 where "q1 = (if ?b then snd (sq_push (dns_counted ?b qi) ?q) else ?q)"
  have q1: "items_all P q1" using assms(2,3) by (simp add: q1_def items_all_push)
  have "mp_selected_queue (t_spider s1) \<in> {?q, q1, snd (sq_push (dns_counted ?b qi) q1)}"
    using locate_effect [OF assms(1)] unfolding Let_def q1_def by (cases x) auto
  with q1 assms(2) items_all_push [OF q1 assms(3)] show ?thesis by auto
qed

lemma fetch_page_all:
  assumes "fetch_page env l s = Some (x, s1)" "queue_all P s"
    and "P ((l_item l)\<lparr>fail_count := fail_count (l_item l) + 1\<rparr>)"
  shows "queue_all P s1"
proof -
  let ?q = "mp_selected_queue (t_spider s)"
  have "mp_selected_queue (t_spider s1) \<in> {?q, snd (sq_push ((l_item l)\<lparr>fail_count := fail_count (l_item l) + 1\<rparr>) ?q)}"
    using fetch_page_effect [OF assms(1)] by (cases x) auto
  with assms(2) items_all_push [OF assms(2,3)] show ?thesis by auto
qed

text \<open>What a turn that took \<open>qi\<close> puts behind the rest of the queue; \<open>b\<close> says that the site has no address.\<close>

definition requeued :: "crawl_result \<Rightarrow> bool \<Rightarrow> SSQItem \<Rightarrow> SSQItem list" where
  "requeued r b qi =
     (let q1 = dns_counted b qi
      in if r \<in> {Crawl_fail, Dns_fail} then []
         else (if b then [q1] else []) @
              (if r = Delayed then [q1]
               else if r = Net_fail then [q1\<lparr>fail_count := fail_count q1 + 1\<rparr>] else []))"

section \<open>Properties\<close>

text \<open>C6: Whatever happens in a turn, the slot that the level pool granted for a site is given back in the
  same turn, exactly once and for the same site: the number of running fetches of every site is
  after the turn what it was before.\<close>

theorem crawl_turn_gives_slots_back:
  assumes "crawl_turn env s = Some (r, s')"
  shows "running (mp_level_pool (t_spider s')) site = running (mp_level_pool (t_spider s)) site"
  by (rule crawl_turn_running [OF assms])

text \<open>C9: What a turn does to the selected queue when there is room: it takes the first item and puts back
  at the end nothing when the item is dropped or crawled, the item itself when the site is busy, the
  item with one more failure when the fetch failed; and an item of a site without an address is put
  back a first time with one more DNS failure and still goes through the rest of the turn, so that
  it can be in the queue twice.\<close>

theorem crawl_turn_queue:
  assumes "crawl_turn env s = Some (r, s')" "r \<noteq> Null_page_error"
    and "sq_inv (mp_selected_queue (t_spider s))" "m_queue (mp_selected_queue (t_spider s)) = qi # rest"
    and "int (length (qi # rest)) < m_size (mp_selected_queue (t_spider s))"
  shows "m_queue (mp_selected_queue (t_spider s')) = rest @ requeued r (without_address env (t_spider s) qi) qi"
proof -
  let ?q = "mp_selected_queue (t_spider s)" and ?b = "without_address env (t_spider s) qi"
  have pop: "qi' = qi \<and> m_queue q1 = rest \<and> m_size q1 = m_size ?q \<and> sq_inv q1"
    if "sq_pop ?q = (Some qi', q1)" for qi' q1
    using sq_pop_some [OF that] assms(3,4) by auto
  have same: "without_address env (t_spider s1) qi = ?b" if "take_item env s = Some (Inr qi', s1)" for qi' s1
    using take_item_effect [OF that] by (auto simp: without_address_def split: option.split)
  have q1: "qi' = qi \<and> (let q1 = mp_selected_queue (t_spider s1);
        q2 = (if ?b then snd (sq_push (dns_counted ?b qi) q1) else q1)
      in m_queue q1 = rest \<and> m_queue q2 = rest @ (if ?b then [dns_counted ?b qi] else []) \<and>
         (\<forall>x. m_queue (snd (sq_push x q2)) = m_queue q2 @ [x]))"
    if t: "take_item env s = Some (Inr qi', s1)" for qi' s1
  proof -
    have p: "qi' = qi" "m_queue (mp_selected_queue (t_spider s1)) = rest"
      "m_size (mp_selected_queue (t_spider s1)) = m_size ?q" "sq_inv (mp_selected_queue (t_spider s1))"
      using take_item_effect [OF t] pop by auto
    show ?thesis
      using p(1,2) sq_push_room [OF p(4), of "dns_counted ?b qi"] sq_push_room [OF p(4)] assms(5) p(3)
        sq_push_room [of "snd (sq_push (dns_counted ?b qi) (mp_selected_queue (t_spider s1)))"]
      by (cases ?b) (simp_all add: Let_def)
  qed
  show ?thesis
  proof (rule crawl_turn_cases [OF assms(1)])
    assume t: "take_item env s = Some (Inl r, s')"
    then have "r \<noteq> Queue_empty"
      using assms(4) by (auto simp: take_item_def Let_def sq_pop_def end_with_error_def split: option.splits if_splits)
    with take_item_effect [OF t] assms(2) pop show ?thesis by (auto simp: requeued_def Let_def)
  next
    fix qi' s1
    assume t: "take_item env s = Some (Inr qi', s1)" and "locate env qi' s1 = Some (Inl r, s')"
    from q1 [OF t] locate_effect [OF this(2)] same [OF t] show ?thesis
      by (auto simp: Let_def requeued_def)
  next
    fix qi' s1 l s2
    assume t: "take_item env s = Some (Inr qi', s1)" and "locate env qi' s1 = Some (Inr l, s2)"
      "fetch_page env l s2 = Some (Inl r, s')"
    from q1 [OF t] locate_effect [OF this(2)] same [OF t] fetch_page_effect [OF this(3)] show ?thesis
      by (auto simp: Let_def requeued_def)
  next
    fix qi' s1 l s2 lr s3
    assume t: "take_item env s = Some (Inr qi', s1)" and "locate env qi' s1 = Some (Inr l, s2)"
      "fetch_page env l s2 = Some (Inr lr, s3)" "keep_page env lr s3 = Some (Inl r, s')"
    from q1 [OF t] locate_effect [OF this(2)] same [OF t] fetch_page_effect [OF this(3)] keep_page_core [OF this(4)]
    show ?thesis by (auto simp: Let_def requeued_def same_core_def)
  qed
qed

definition counts_ok :: "CSpiderConf \<Rightarrow> SSQItem \<Rightarrow> bool" where
  "counts_ok conf qi \<longleftrightarrow> fail_count qi \<le> max_url_fail_count conf + 1 \<and> dns_count qi \<le> max_dns_query_count conf + 1"

text \<open>Retries are bounded: no turn puts an item into the queue whose counts exceed the configured maxima by
  more than one, and an item that exceeds one of them is dropped by the turn that takes it.\<close>

theorem crawl_turn_counts:
  assumes "crawl_turn env s = Some (r, s')"
    and "queue_all (counts_ok (m_spider_conf (t_spider s))) s"
  shows "m_spider_conf (t_spider s') = m_spider_conf (t_spider s) \<and>
    queue_all (counts_ok (m_spider_conf (t_spider s'))) s'"
proof -
  let ?P = "counts_ok (m_spider_conf (t_spider s))"
  have q: "?P (dns_counted b qi)" "?P ((dns_counted b qi)\<lparr>fail_count := fail_count (dns_counted b qi) + 1\<rparr>)"
    if "take_item env s = Some (Inr qi, s1)" for b qi s1
    using take_item_effect [OF that] by (auto simp: counts_ok_def dns_counted_def)
  show ?thesis
  proof (rule crawl_turn_cases [OF assms(1)])
    assume t: "take_item env s = Some (Inl r, s')"
    from take_item_effect [OF t] take_item_all [OF t assms(2)] show ?thesis by simp
  next
    fix qi s1
    assume t: "take_item env s = Some (Inr qi, s1)" and l: "locate env qi s1 = Some (Inl r, s')"
    from take_item_effect [OF t] locate_effect [OF l]
      locate_all [OF l take_item_all [OF t assms(2)] q(1) [OF t]] show ?thesis by simp
  next
    fix qi s1 l s2
    assume t: "take_item env s = Some (Inr qi, s1)" and l: "locate env qi s1 = Some (Inr l, s2)"
      and f: "fetch_page env l s2 = Some (Inl r, s')"
    have i: "l_item l = dns_counted (without_address env (t_spider s1) qi) qi"
      using locate_effect [OF l] by (simp add: Let_def)
    have "queue_all ?P s'"
      by (rule fetch_page_all [OF f locate_all [OF l take_item_all [OF t assms(2)] q(1) [OF t]]])
        (simp add: i q(2) [OF t])
    with take_item_effect [OF t] locate_effect [OF l] fetch_page_effect [OF f] show ?thesis by simp
  next
    fix qi s1 l s2 lr s3
    assume t: "take_item env s = Some (Inr qi, s1)" and l: "locate env qi s1 = Some (Inr l, s2)"
      and f: "fetch_page env l s2 = Some (Inr lr, s3)" and k: "keep_page env lr s3 = Some (Inl r, s')"
    have i: "l_item l = dns_counted (without_address env (t_spider s1) qi) qi"
      using locate_effect [OF l] by (simp add: Let_def)
    have "queue_all ?P s3"
      by (rule fetch_page_all [OF f locate_all [OF l take_item_all [OF t assms(2)] q(1) [OF t]]])
        (simp add: i q(2) [OF t])
    with take_item_effect [OF t] locate_effect [OF l] fetch_page_effect [OF f] keep_page_core [OF k]
    show ?thesis by (simp add: same_core_def)
  qed
qed

section \<open>A turn on concrete values\<close>

definition busy_item :: SSQItem where
  "busy_item = \<lparr>sq_url = ''http://a.b/1'', fail_count = 0, dns_count = 0, sq_last_crawl_time = 0,
     which_queue = QUEUE_TYPE_IOQ\<rparr>"

text \<open>One item in the queue, and its site in the level pool with no slot free.\<close>

definition busy_state :: crawl_state where
  "busy_state = \<lparr>t_spider = (spider_new (conf_zeroed\<lparr>page_name_change_interval := 10\<rparr>))
      \<lparr>mp_selected_queue := \<lparr>m_queue = [busy_item], m_size = 20, m_count = 1\<rparr>,
       mp_level_pool := [''a.b'' \<mapsto> \<lparr>max_crawl_thread_count = 0, crawl_thread_count = 0, last_crawl_time = 0, crawl_interval = 0\<rparr>]\<rparr>,
     t_files = \<lparr>pg_dirs = {}, pg_files = Map.empty\<rparr>, t_conv = utf8_new 0 [] 0\<rparr>"

definition sample_env :: crawl_env where
  "sample_env = \<lparr>
     first_page = (\<lparr>mkdir_ok = True, open_ok = True, write_ok = True\<rparr>,
       \<lparr>tm_year = 113, tm_mon = 0, tm_mday = 2, tm_hour = 3, tm_min = 4\<rparr>),
     parse_url = \<lambda>u. Some (u, ''a.b'', ''a.b''), dns_net = \<lambda>_. no_socket, clock_ms = 0,
     fetch = \<lambda>_ _ _. \<lparr>f_length = - 1, f_location = None, f_page = None\<rparr>,
     list_ok = True, clock_s = 7, lock_rc = 0, codes = sample_codes, links_of = \<lambda>_ _. [],
     link_type = \<lambda>_. 0, link_norm = \<lambda>u. u,
     last_page = (\<lparr>mkdir_ok = True, open_ok = True, write_ok = True\<rparr>,
       \<lparr>tm_year = 113, tm_mon = 0, tm_mday = 2, tm_hour = 3, tm_min = 4\<rparr>),
     sign_of = \<lambda>_. (0, 0), base64_of = \<lambda>s. s\<rparr>"

lemma busy_turn: "\<exists>s'. crawl_turn sample_env busy_state = Some (Delayed, s')"
proof -
  have conf: "m_spider_conf (t_spider busy_state) = conf_zeroed\<lparr>page_name_change_interval := 10\<rparr>"
    by (simp add: busy_state_def spider_new_def)
  have "\<exists>s1. take_item sample_env busy_state = Some (Inr busy_item, s1) \<and>
      m_spider_conf (t_spider s1) = conf_zeroed\<lparr>page_name_change_interval := 10\<rparr> \<and>
      m_dns_client (t_spider s1) = Map.empty \<and> mp_level_pool (t_spider s1) = mp_level_pool (t_spider busy_state)"
    by (simp add: take_item_def busy_state_def sample_env_def spider_new_def spider_defs Let_def day_dir_def
        page_path_def conf_zeroed_def busy_item_def dec2_def dec_int_def dec_digits.simps PATH_BUF_def)
  then obtain s1 where 1: "take_item sample_env busy_state = Some (Inr busy_item, s1)"
    and s1: "m_spider_conf (t_spider s1) = conf_zeroed\<lparr>page_name_change_interval := 10\<rparr>"
      "m_dns_client (t_spider s1) = Map.empty" "mp_level_pool (t_spider s1) = mp_level_pool (t_spider busy_state)"
    by blast
  have "\<exists>s'. locate sample_env busy_item s1 = Some (Inl Delayed, s')"
    by (simp add: locate_def sample_env_def busy_item_def s1 no_socket_no_ip conf_zeroed_def Let_def
        is_crawl_enabled_def busy_state_def requeue_def)
  with 1 show ?thesis by (auto simp: crawl_turn_def then_stage_def)
qed

lemma busy_without_address: "without_address sample_env (t_spider busy_state) busy_item"
  by (simp add: without_address_def sample_env_def busy_item_def busy_state_def spider_new_def no_socket_no_ip
      conf_zeroed_def)

lemma crawl_turn_gives_slots_back_witness:
  "\<exists>s'. crawl_turn sample_env busy_state = Some (Delayed, s') \<and> running (mp_level_pool (t_spider s')) ''a.b'' = 0"
proof -
  obtain s' where t: "crawl_turn sample_env busy_state = Some (Delayed, s')" using busy_turn by blast
  have "running (mp_level_pool (t_spider s')) ''a.b'' = 0"
    unfolding crawl_turn_gives_slots_back [OF t] by (simp add: busy_state_def running_def)
  with t show ?thesis by blast
qed

lemma crawl_turn_queue_witness:
  "\<exists>s'. crawl_turn sample_env busy_state = Some (Delayed, s') \<and>
     m_queue (mp_selected_queue (t_spider s')) = [busy_item\<lparr>dns_count := 1\<rparr>, busy_item\<lparr>dns_count := 1\<rparr>]"
proof -
  obtain s' where t: "crawl_turn sample_env busy_state = Some (Delayed, s')" using busy_turn by blast
  have q: "sq_inv (mp_selected_queue (t_spider busy_state))"
    "m_queue (mp_selected_queue (t_spider busy_state)) = busy_item # []"
    "int (length (busy_item # [])) < m_size (mp_selected_queue (t_spider busy_state))"
    by (simp_all add: busy_state_def sq_inv_def)
  have "m_queue (mp_selected_queue (t_spider s')) = [busy_item\<lparr>dns_count := 1\<rparr>, busy_item\<lparr>dns_count := 1\<rparr>]"
    using crawl_turn_queue [OF t _ q] busy_without_address
    by (simp add: requeued_def dns_counted_def busy_item_def Let_def)
  with t show ?thesis by blast
qed

lemma crawl_turn_counts_witness:
  "\<exists>s'. crawl_turn sample_env busy_state = Some (Delayed, s') \<and>
     queue_all (counts_ok (m_spider_conf (t_spider s'))) s'"
proof -
  obtain s' where t: "crawl_turn sample_env busy_state = Some (Delayed, s')" using busy_turn by blast
  have "queue_all (counts_ok (m_spider_conf (t_spider busy_state))) busy_state"
    by (simp add: items_all_def busy_state_def counts_ok_def busy_item_def spider_new_def conf_zeroed_def)
  from crawl_turn_counts [OF t this] t show ?thesis by blast
qed

section \<open>What a crawled page leaves behind\<close>

text \<open>The URLs that the links of a page give to the two pools.\<close>

definition cate_links :: "CSpiderConf \<Rightarrow> url_parser \<Rightarrow> (string \<Rightarrow> int) \<Rightarrow> queue_type \<Rightarrow> string list \<Rightarrow> UrlInfo list" where
  "cate_links conf uc ty which links = concat (map (\<lambda>l.
     if extract_cate_url conf = 0 \<or> ty l \<noteq> CATE_LINK then []
     else (case uc l of None \<Rightarrow> []
           | Some parts \<Rightarrow> [(url_info 0 parts)\<lparr>ui_url := l, ui_type := (if which = QUEUE_TYPE_CPQ then PCATE else OCATE)\<rparr>])) links)"

definition item_links :: "CSpiderConf \<Rightarrow> url_parser \<Rightarrow> (string \<Rightarrow> int) \<Rightarrow> (string \<Rightarrow> string) \<Rightarrow> queue_type \<Rightarrow> string list
    \<Rightarrow> UrlInfo list" where
  "item_links conf uc ty norm which links = concat (map (\<lambda>l.
     if extract_item_url conf = 0 \<or> ty l \<noteq> ITEM_LINK then []
     else (case uc l of None \<Rightarrow> []
           | Some parts \<Rightarrow> [(url_info 0 parts)\<lparr>ui_url := (if normalize_url conf \<noteq> 0 then norm l else l),
               ui_type := (if which = QUEUE_TYPE_CPQ then PITEM else OITEM)\<rparr>])) links)"

lemma links_Cons:
  "cate_links conf uc ty which (l # ls) = cate_links conf uc ty which [l] @ cate_links conf uc ty which ls"
  "item_links conf uc ty norm which (l # ls) = item_links conf uc ty norm which [l] @ item_links conf uc ty norm which ls"
  by (simp_all add: cate_links_def item_links_def)

lemma write_link_pools:
  "mp_cpq (write_link uc ty norm which l sp) = (if which = QUEUE_TYPE_CPQ
     then fold push_url (cate_links (m_spider_conf sp) uc ty which [l]) (mp_cpq sp) else mp_cpq sp)"
  "mp_coq (write_link uc ty norm which l sp) = (if which = QUEUE_TYPE_CPQ then mp_coq sp
     else fold push_url (cate_links (m_spider_conf sp) uc ty which [l]) (mp_coq sp))"
  "mp_ipq (write_link uc ty norm which l sp) = (if which = QUEUE_TYPE_CPQ
     then fold push_url (item_links (m_spider_conf sp) uc ty norm which [l]) (mp_ipq sp) else mp_ipq sp)"
  "mp_ioq (write_link uc ty norm which l sp) = (if which = QUEUE_TYPE_CPQ then mp_ioq sp
     else fold push_url (item_links (m_spider_conf sp) uc ty norm which [l]) (mp_ioq sp))"
  by (simp_all add: cate_links_def item_links_def write_link_def push_item_link_def push_cate_link_def
      ITEM_LINK_def CATE_LINK_def Let_def split: option.split)

lemma write_to_queue_links:
  "let conf = m_spider_conf sp; sp' = write_to_queue uc ty norm which links sp;
       cates = cate_links conf uc ty which links; items = item_links conf uc ty norm which links
   in if which = QUEUE_TYPE_CPQ
      then mp_cpq sp' = fold push_url cates (mp_cpq sp) \<and> mp_ipq sp' = fold push_url items (mp_ipq sp) \<and>
           mp_coq sp' = mp_coq sp \<and> mp_ioq sp' = mp_ioq sp
      else mp_coq sp' = fold push_url cates (mp_coq sp) \<and> mp_ioq sp' = fold push_url items (mp_ioq sp) \<and>
           mp_cpq sp' = mp_cpq sp \<and> mp_ipq sp' = mp_ipq sp"
proof (induction links arbitrary: sp)
  case Nil
  then show ?case by (simp add: write_to_queue_def cate_links_def item_links_def List.map_filter_def)
next
  case (Cons l links)
  let ?sp1 = "write_link uc ty norm which l sp"
  have step: "write_to_queue uc ty norm which (l # links) sp = write_to_queue uc ty norm which links ?sp1"
    by (simp add: write_to_queue_def)
  have conf: "m_spider_conf ?sp1 = m_spider_conf sp"
    using write_to_queue_core(3) [of uc ty norm which "[l]" sp] by (simp add: write_to_queue_def)
  show ?case
    using Cons [of ?sp1] unfolding step conf Let_def
    by (cases "which = QUEUE_TYPE_CPQ") (simp_all add: links_Cons [where l = l and ls = links] write_link_pools)
qed

text \<open>The links of a page go to the pools in the order of the links: category links to the category pool and
  item links, normalised when that is configured, to the item pool, each only when its extraction is
  configured; links that are no URLs and links of neither kind go nowhere. They are the priority
  pools only for a page of the priority category pool; the pages of the priority item pool feed the
  ordinary pools.\<close>

theorem write_to_queue_pools:
  "let conf = m_spider_conf sp; sp' = write_to_queue uc ty norm which links sp;
       cates = cate_links conf uc ty which links; items = item_links conf uc ty norm which links
   in if which = QUEUE_TYPE_CPQ
      then mp_cpq sp' = fold push_url cates (mp_cpq sp) \<and> mp_ipq sp' = fold push_url items (mp_ipq sp) \<and>
           mp_coq sp' = mp_coq sp \<and> mp_ioq sp' = mp_ioq sp
      else mp_coq sp' = fold push_url cates (mp_coq sp) \<and> mp_ioq sp' = fold push_url items (mp_ioq sp) \<and>
           mp_cpq sp' = mp_cpq sp \<and> mp_ipq sp' = mp_ipq sp"
  by (rule write_to_queue_links)

definition outputs :: "crawl_state \<Rightarrow> CUrlOutput \<times> CUrlOutput \<times> CUrlOutput" where
  "outputs s = (mp_cate_output (t_spider s), mp_item_output (t_spider s), mp_fail_output (t_spider s))"

lemma stage_outputs:
  "take_item env s = Some (Inr qi, s1) \<Longrightarrow> outputs s1 = outputs s"
  "locate env qi s = Some (Inr l, s1) \<Longrightarrow> outputs s1 = outputs s \<and> sq_url (l_item l) = sq_url qi \<and> which_queue (l_item l) = which_queue qi"
  "fetch_page env l s = Some (Inr lr, s1) \<Longrightarrow> outputs s1 = outputs s"
  by (auto simp: take_item_def locate_def fetch_page_def outputs_def Let_def requeue_def finish_def end_with_error_def
      split: option.splits prod.splits if_splits bool.splits)

lemma write_to_queue_outputs:
  "mp_cate_output (write_to_queue uc ty norm which links sp) = mp_cate_output sp"
  "mp_item_output (write_to_queue uc ty norm which links sp) = mp_item_output sp"
  "mp_fail_output (write_to_queue uc ty norm which links sp) = mp_fail_output sp"
  unfolding write_to_queue_def
  by (induction links arbitrary: sp)
    (simp_all add: write_link_def push_item_link_def push_cate_link_def Let_def split: option.split)

lemma store_page_outputs: "store_page env lc s = Some (x, s1) \<Longrightarrow> outputs s1 = outputs s"
  by (auto simp: store_page_def outputs_def Let_def write_to_queue_outputs split: option.splits if_splits)

text \<open>A successful \<open>append\<close> is one whole line at the end of an open file.\<close>

lemma out_append_success:
  assumes "out_append ok time url o1 = Some (rc, o2)" "rc \<noteq> - 1" "NUL \<notin> set url"
  shows "\<exists>c. out_fd o1 = Some c \<and> out_fd o2 = Some (c @ url @ TAB # dec_digits time @ [LF])"
proof -
  obtain buf where b: "append_line time url = Some buf" "out_write ok buf o1 = (rc, o2)"
    using assms(1) by (auto simp: out_append_def)
  then have "\<not> MBUF_LEN \<le> length url + length (dec_digits time) + 2"
    using append_line_overflow [OF assms(3), of time] by auto
  then have "length url + length (dec_digits time) + 3 \<le> MBUF_LEN" by simp
  from append_line_text [OF assms(3) this] b(1)
  have buf: "buf = url @ TAB # dec_digits time @ LF #
      replicate (MBUF_LEN - (length url + length (dec_digits time) + 2)) NUL" by simp
  obtain k where k: "MBUF_LEN - (length url + length (dec_digits time) + 2) = Suc k"
    using \<open>length url + length (dec_digits time) + 3 \<le> MBUF_LEN\<close>
    by (cases "MBUF_LEN - (length url + length (dec_digits time) + 2)") auto
  have "cstr buf = url @ TAB # dec_digits time @ [LF]"
    unfolding buf k using assms(3) by (simp add: cstr_append)
  with b(2) assms(2) show ?thesis by (auto simp: out_write_def split: option.splits if_splits)
qed

lemma record_crawl_outputs:
  assumes "record_crawl env lr s = Some (Inr lr', s1)" "NUL \<notin> set (sq_url (l_item (fst lr)))"
  shows "let line = sq_url (l_item (fst lr)) @ TAB # dec_digits (clock_s env) @ [LF]; o1 = outputs s; o2 = outputs s1
    in if is_category (which_queue (l_item (fst lr)))
       then (\<exists>c. out_fd (fst o1) = Some c \<and> out_fd (fst o2) = Some (c @ line)) \<and> snd o2 = snd o1
       else (\<exists>c. out_fd (fst (snd o1)) = Some c \<and> out_fd (fst (snd o2)) = Some (c @ line)) \<and>
            fst o2 = fst o1 \<and> snd (snd o2) = snd (snd o1)"
  using assms out_append_success [OF _ _ assms(2)]
  by (auto simp: record_crawl_def outputs_def Let_def split: if_splits)

text \<open>C29: A page that was fetched and recorded is recorded once and in the right list: its URL, a tab, the time
  and a line feed are added at the end of the category list when it came from a category pool, of the
  item list otherwise, and the other two lists do not change, whatever happens to the page afterwards.\<close>

theorem crawl_turn_records:
  assumes "crawl_turn env s = Some (r, s')" "r \<in> {Crawled, Convert_error, Page_error}"
    and "m_queue (mp_selected_queue (t_spider s)) = qi # rest" "NUL \<notin> set (sq_url qi)"
  shows "let line = sq_url qi @ TAB # dec_digits (clock_s env) @ [LF];
      grown = (\<lambda>o1 o2. \<exists>c. out_fd o1 = Some c \<and> out_fd o2 = Some (c @ line))
    in (if is_category (which_queue qi)
        then grown (mp_cate_output (t_spider s)) (mp_cate_output (t_spider s')) \<and>
             mp_item_output (t_spider s') = mp_item_output (t_spider s)
        else grown (mp_item_output (t_spider s)) (mp_item_output (t_spider s')) \<and>
             mp_cate_output (t_spider s') = mp_cate_output (t_spider s)) \<and>
       mp_fail_output (t_spider s') = mp_fail_output (t_spider s)"
proof (rule crawl_turn_cases [OF assms(1)])
  fix qi' s1 l s2 lr s3
  assume t: "take_item env s = Some (Inr qi', s1)" and l: "locate env qi' s1 = Some (Inr l, s2)"
    and f: "fetch_page env l s2 = Some (Inr lr, s3)" and k: "keep_page env lr s3 = Some (Inl r, s')"
  have qi: "qi' = qi" using take_item_effect [OF t] assms(3) by (auto dest!: sq_pop_some)
  have i: "sq_url (l_item (fst lr)) = sq_url qi" "which_queue (l_item (fst lr)) = which_queue qi"
    using stage_outputs(2) [OF l] fetch_page_effect [OF f] qi by auto
  have o3: "outputs s3 = outputs s"
    using stage_outputs(1) [OF t] stage_outputs(2) [OF l] stage_outputs(3) [OF f] by simp
  obtain x1 s4 where 1: "record_crawl env lr s3 = Some (x1, s4)"
    using k by (auto simp: keep_page_def then_stage_def split: option.splits)
  with k record_crawl_core [OF 1] assms(2) have rec: "record_crawl env lr s3 = Some (Inr lr, s4)"
    by (auto simp: keep_page_def then_stage_def)
  then have k2: "then_stage (convert_page env lr s4) (store_page env) = Some (Inl r, s')"
    using k by (simp add: keep_page_def then_stage_def)
  then obtain x2 s5 where 2: "convert_page env lr s4 = Some (x2, s5)"
    by (auto simp: then_stage_def split: option.splits)
  have o4: "outputs s' = outputs s4"
  proof (cases x2)
    case (Inl r2)
    with k2 2 convert_page_core [OF 2] show ?thesis by (auto simp: then_stage_def outputs_def)
  next
    case (Inr lc)
    with k2 2 have "store_page env lc s5 = Some (Inl r, s')" by (simp add: then_stage_def)
    from store_page_outputs [OF this] convert_page_core [OF 2] show ?thesis by (simp add: outputs_def)
  qed
  have "NUL \<notin> set (sq_url (l_item (fst lr)))" using assms(4) i(1) by simp
  from record_crawl_outputs [OF rec this] o3 o4 show ?thesis
    unfolding i Let_def by (auto simp: outputs_def)
qed (use assms(2) in \<open>auto dest!: take_item_effect locate_effect fetch_page_effect simp: Let_def\<close>)

lemma end_with_error_fetch: "end_with_error (env\<lparr>fetch := f\<rparr>) = end_with_error env"
  by (simp add: fun_eq_iff end_with_error_def)

text \<open>A turn makes one fetch and at most \<open>max_url_redirect_count\<close> more: what the network would answer to
  any further fetch has no influence on the turn.\<close>

theorem crawl_turn_fetches_bounded:
  assumes "\<And>n u ip. n \<le> nat (max_url_redirect_count (m_spider_conf (t_spider s))) \<Longrightarrow> fetch2 n u ip = fetch env n u ip"
  shows "crawl_turn (env\<lparr>fetch := fetch2\<rparr>) s = crawl_turn env s"
proof -
  let ?env = "env\<lparr>fetch := fetch2\<rparr>" and ?max = "nat (max_url_redirect_count (m_spider_conf (t_spider s)))"
  have follow: "n + k \<le> Suc ?max \<Longrightarrow> follow ?env conf site k n ip r cache = follow env conf site k n ip r cache"
    for conf site k n ip r cache
    by (induction k arbitrary: n ip r cache) (auto simp: assms split: option.split)
  have take: "take_item ?env s = take_item env s"
    by (simp add: take_item_def end_with_error_fetch cong del: option.case_cong_weak prod.case_cong_weak if_weak_cong)
  have loc: "locate ?env = locate env" 
    by (simp add: fun_eq_iff locate_def end_with_error_fetch cong del: option.case_cong_weak prod.case_cong_weak if_weak_cong)
  have keep: "keep_page ?env = keep_page env"
  proof -
    have "record_crawl ?env = record_crawl env" by (simp add: fun_eq_iff record_crawl_def Let_def)
    moreover have "convert_page ?env = convert_page env"
      by (simp add: fun_eq_iff convert_page_def cong del: option.case_cong_weak prod.case_cong_weak if_weak_cong)
    moreover have "store_page ?env = store_page env"
      by (simp add: fun_eq_iff store_page_def Let_def cong del: option.case_cong_weak prod.case_cong_weak if_weak_cong)
    ultimately show ?thesis unfolding keep_page_def [abs_def] by (simp only:)
  qed
  have fetch: "fetch_page ?env l s2 = fetch_page env l s2"
    if "take_item env s = Some (Inr qi, s1)" "locate env qi s1 = Some (Inr l, s2)" for qi s1 l s2
  proof -
    have conf: "m_spider_conf (t_spider s2) = m_spider_conf (t_spider s)"
      using take_item_effect [OF that(1)] locate_effect [OF that(2)] by simp
    have "follow ?env (m_spider_conf (t_spider s)) (l_site l) ?max 1 (l_ip l) r cache =
      follow env (m_spider_conf (t_spider s)) (l_site l) ?max 1 (l_ip l) r cache" for r cache
      by (rule follow) simp
    moreover have "fetch2 0 u ip = fetch env 0 u ip" for u ip by (simp add: assms)
    ultimately show ?thesis unfolding fetch_page_def conf Let_def by (simp add: end_with_error_fetch cong del: option.case_cong_weak prod.case_cong_weak if_weak_cong)
  qed
  have stages: "then_stage (take_item ?env s) (\<lambda>qi s1. then_stage (locate ?env qi s1) (\<lambda>l s2.
        then_stage (fetch_page ?env l s2) (keep_page ?env))) =
      then_stage (take_item env s) (\<lambda>qi s1. then_stage (locate env qi s1) (\<lambda>l s2.
        then_stage (fetch_page env l s2) (keep_page env)))"
    unfolding take loc keep
    by (auto simp: then_stage_def fetch split: option.splits sum.splits)
  have "crawl_turn ?env s = Some (r, s') \<longleftrightarrow> crawl_turn env s = Some (r, s')" for r s'
    unfolding crawl_turn_stages stages by simp
  then show ?thesis by (metis not_None_eq surj_pair)
qed

lemma crawl_turn_fetches_bounded_witness:
  "crawl_turn (sample_env\<lparr>fetch := (\<lambda>n u ip. if n < 5 then fetch sample_env n u ip else fetch sample_env 0 ip u)\<rparr>) busy_state =
   crawl_turn sample_env busy_state"
  by (rule crawl_turn_fetches_bounded) (simp add: busy_state_def spider_new_def conf_zeroed_def)

text \<open>No page is ever turned down for its size: with a minimum that does not exceed the maximum the test is
  never true, so neither a page that is too short nor one that is too long ends as a size failure.\<close>

theorem size_is_never_checked:
  assumes "min_page_len (m_spider_conf (t_spider s)) \<le> max_page_len (m_spider_conf (t_spider s))"
    and "crawl_turn env s = Some (r, s')"
  shows "r \<noteq> Size_fail"
proof -
  have never: "x \<noteq> Inl Size_fail" if "fetch_page env l s2 = Some (x, s3)"
    "m_spider_conf (t_spider s2) = m_spider_conf (t_spider s)" for l s2 x s3
    using that assms(1)
    by (auto simp: fetch_page_def Let_def size_fails_def end_with_error_def split: option.splits if_splits)
  show ?thesis
  proof (rule crawl_turn_cases [OF assms(2)])
    assume t: "take_item env s = Some (Inl r, s')"
    from take_item_effect [OF t] show ?thesis by auto
  next
    fix qi s1
    assume "locate env qi s1 = Some (Inl r, s')"
    from locate_effect [OF this] show ?thesis by (auto simp: Let_def)
  next
    fix qi s1 l s2
    assume t: "take_item env s = Some (Inr qi, s1)" and l: "locate env qi s1 = Some (Inr l, s2)"
      and f: "fetch_page env l s2 = Some (Inl r, s')"
    from take_item_effect [OF t] locate_effect [OF l] never [OF f] show ?thesis by simp
  next
    fix lr s3
    assume "keep_page env lr s3 = Some (Inl r, s')"
    from keep_page_core [OF this] show ?thesis by auto
  qed
qed

lemma size_is_never_checked_witness: "\<exists>s'. crawl_turn sample_env busy_state = Some (Delayed, s') \<and> Delayed \<noteq> Size_fail"
proof -
  obtain s' where t: "crawl_turn sample_env busy_state = Some (Delayed, s')" using busy_turn by blast
  have "min_page_len (m_spider_conf (t_spider busy_state)) \<le> max_page_len (m_spider_conf (t_spider busy_state))"
    by (simp add: busy_state_def spider_new_def conf_zeroed_def)
  from size_is_never_checked [OF this t] t show ?thesis by blast
qed

text \<open>A turn that crawls a category page.\<close>

definition crawled_env :: crawl_env where
  "crawled_env = sample_env\<lparr>fetch := (\<lambda>_ _ _. \<lparr>f_length = 200, f_location = None, f_page = Some ''abc''\<rparr>)\<rparr>"

definition cate_item :: SSQItem where
  "cate_item = busy_item\<lparr>which_queue := QUEUE_TYPE_COQ\<rparr>"

definition crawled_state :: crawl_state where
  "crawled_state = \<lparr>t_spider = (spider_new (conf_zeroed\<lparr>page_name_change_interval := 10\<rparr>))
      \<lparr>mp_selected_queue := \<lparr>m_queue = [cate_item], m_size = 20, m_count = 1\<rparr>, mp_cate_output := out_new\<lparr>out_fd := Some []\<rparr>\<rparr>,
     t_files = \<lparr>pg_dirs = {}, pg_files = Map.empty\<rparr>, t_conv = (utf8_new 0 [] 0)\<lparr>m_output := Some []\<rparr>\<rparr>"

lemma crawled_line: "\<exists>buf. append_line 7 ''http://a.b/1'' = Some buf"
  using append_line_text [of "''http://a.b/1''" 7] by (simp add: MBUF_LEN_def dec_digits.simps)

lemma crawled_turn: "\<exists>s'. crawl_turn crawled_env crawled_state = Some (Crawled, s')"
proof -
  obtain buf where buf: "append_line 7 ''http://a.b/1'' = Some buf" using crawled_line by blast
  let ?conf = "conf_zeroed\<lparr>page_name_change_interval := 10\<rparr>"
  have "\<exists>s1. take_item crawled_env crawled_state = Some (Inr cate_item, s1) \<and>
      m_spider_conf (t_spider s1) = ?conf \<and> m_dns_client (t_spider s1) = Map.empty \<and>
      mp_level_pool (t_spider s1) = Map.empty \<and> t_conv s1 = t_conv crawled_state \<and>
      mp_cate_output (t_spider s1) = out_new\<lparr>out_fd := Some []\<rparr>"
    by (simp add: take_item_def crawled_state_def crawled_env_def sample_env_def spider_new_def spider_defs Let_def
        day_dir_def page_path_def conf_zeroed_def cate_item_def busy_item_def dec2_def dec_int_def dec_digits.simps
        PATH_BUF_def)
  then obtain s1 where 1: "take_item crawled_env crawled_state = Some (Inr cate_item, s1)"
    and s1: "m_spider_conf (t_spider s1) = ?conf" "m_dns_client (t_spider s1) = Map.empty"
      "mp_level_pool (t_spider s1) = Map.empty" "t_conv s1 = t_conv crawled_state"
      "mp_cate_output (t_spider s1) = out_new\<lparr>out_fd := Some []\<rparr>" by blast
  have "\<exists>l s2. locate crawled_env cate_item s1 = Some (Inr l, s2) \<and> l_item l = cate_item\<lparr>dns_count := 1\<rparr> \<and>
      m_spider_conf (t_spider s2) = ?conf \<and> t_conv s2 = t_conv crawled_state \<and>
      mp_cate_output (t_spider s2) = out_new\<lparr>out_fd := Some []\<rparr>"
    by (simp add: locate_def crawled_env_def sample_env_def cate_item_def busy_item_def s1 no_socket_no_ip
        conf_zeroed_def Let_def is_crawl_enabled_def requeue_def)
  then obtain l s2 where 2: "locate crawled_env cate_item s1 = Some (Inr l, s2)" "l_item l = cate_item\<lparr>dns_count := 1\<rparr>"
    and s2: "m_spider_conf (t_spider s2) = ?conf" "t_conv s2 = t_conv crawled_state"
      "mp_cate_output (t_spider s2) = out_new\<lparr>out_fd := Some []\<rparr>" by blast
  have "\<exists>s3. fetch_page crawled_env l s2 = Some (Inr (l, \<lparr>f_length = 200, f_location = None, f_page = Some ''abc''\<rparr>), s3) \<and>
      m_spider_conf (t_spider s3) = ?conf \<and> t_conv s3 = t_conv crawled_state \<and>
      mp_cate_output (t_spider s3) = out_new\<lparr>out_fd := Some []\<rparr>"
    by (simp add: fetch_page_def crawled_env_def s2 conf_zeroed_def size_fails_def Let_def finish_def)
  then obtain s3 where 3: "fetch_page crawled_env l s2 = Some (Inr (l, \<lparr>f_length = 200, f_location = None, f_page = Some ''abc''\<rparr>), s3)"
    and s3: "m_spider_conf (t_spider s3) = ?conf" "t_conv s3 = t_conv crawled_state"
      "mp_cate_output (t_spider s3) = out_new\<lparr>out_fd := Some []\<rparr>" by blast
  have "\<exists>s'. keep_page crawled_env (l, \<lparr>f_length = 200, f_location = None, f_page = Some ''abc''\<rparr>) s3 = Some (Inl Crawled, s')"
    by (simp add: keep_page_def then_stage_def record_crawl_def 2(2) cate_item_def busy_item_def is_category_def
        crawled_env_def sample_env_def out_append_def buf out_write_def s3 convert_page_def to_utf8_def detect_code_type_def
        sample_codes_def set_input_def crawled_state_def utf8_new_def store_page_def Let_def)
  with 1 2 3 show ?thesis unfolding crawl_turn_stages by (fastforce simp: then_stage_def)
qed

lemma crawl_turn_records_witness:
  "\<exists>s'. crawl_turn crawled_env crawled_state = Some (Crawled, s') \<and>
     out_fd (mp_cate_output (t_spider s')) = Some (''http://a.b/1'' @ TAB # dec_digits 7 @ [LF])"
proof -
  obtain s' where t: "crawl_turn crawled_env crawled_state = Some (Crawled, s')" using crawled_turn by blast
  have "m_queue (mp_selected_queue (t_spider crawled_state)) = cate_item # []" by (simp add: crawled_state_def)
  from crawl_turn_records [OF t _ this]
  have "out_fd (mp_cate_output (t_spider s')) = Some (''http://a.b/1'' @ TAB # dec_digits 7 @ [LF])"
    by (simp add: cate_item_def busy_item_def is_category_def crawled_state_def crawled_env_def sample_env_def)
  with t show ?thesis by blast
qed

section \<open>The work that is left\<close>

text \<open>
  A weight for the items of the queue: every retry costs one of the two counts, so a copy that is put
  back weighs a third of the item that was taken, and a turn puts back at most two copies.
\<close>

definition item_work :: "CSpiderConf \<Rightarrow> SSQItem \<Rightarrow> nat" where
  "item_work conf qi =
     3 ^ nat ((max_url_fail_count conf + 2 - fail_count qi) + (max_dns_query_count conf + 2 - dns_count qi))"

definition retry_work :: "CSpiderConf \<Rightarrow> CSelectedQueue \<Rightarrow> nat" where
  "retry_work conf q = sum_list (map (item_work conf) (m_queue q))"

lemma item_work_pos [simp]: "0 < item_work conf qi"
  by (simp add: item_work_def)

lemma item_work_retry:
  assumes "fail_count qi \<le> max_url_fail_count conf" "dns_count qi \<le> max_dns_query_count conf"
  shows "3 * item_work conf (dns_counted True qi) = item_work conf qi"
    and "3 * item_work conf (dns_counted True qi\<lparr>fail_count := fail_count qi + 1\<rparr>) \<le> item_work conf qi"
    and "3 * item_work conf (qi\<lparr>fail_count := fail_count qi + 1\<rparr>) = item_work conf qi"
proof -
  have pow: "3 * 3 ^ nat (k - 1) = (3 :: nat) ^ nat k" if "0 < k" for k :: int
    using that by (cases "nat k") (simp_all add: nat_diff_distrib power_Suc [symmetric] del: power_Suc)
  let ?k = "(max_url_fail_count conf + 2 - fail_count qi) + (max_dns_query_count conf + 2 - dns_count qi)"
  have k: "3 * 3 ^ nat (?k - 1) = (3 :: nat) ^ nat ?k" using assms by (intro pow) simp
  have "(3 :: nat) ^ nat (?k - 2) \<le> 3 ^ nat (?k - 1)" by (intro power_increasing) auto
  with k have "3 * (3 :: nat) ^ nat (?k - 2) \<le> 3 ^ nat ?k" by linarith
  with k show "3 * item_work conf (dns_counted True qi) = item_work conf qi"
    "3 * item_work conf (dns_counted True qi\<lparr>fail_count := fail_count qi + 1\<rparr>) \<le> item_work conf qi"
    "3 * item_work conf (qi\<lparr>fail_count := fail_count qi + 1\<rparr>) = item_work conf qi"
    by (simp_all add: item_work_def dns_counted_def algebra_simps)
qed

lemma retry_work_push: "retry_work conf (snd (sq_push x q)) \<le> retry_work conf q + item_work conf x"
  by (simp add: retry_work_def sq_push_def)

lemma retry_work_pop:
  "sq_pop q = (Some x, q1) \<Longrightarrow> retry_work conf q = item_work conf x + retry_work conf q1"
  by (auto simp: retry_work_def dest!: sq_pop_some)

text \<open>A turn that takes an item and does not find its site busy leaves less work.\<close>

lemma crawl_turn_work:
  assumes "crawl_turn env s = Some (r, s')" "r \<notin> {Null_page_error, Queue_empty, Delayed}"
  shows "retry_work (m_spider_conf (t_spider s)) (mp_selected_queue (t_spider s')) <
    retry_work (m_spider_conf (t_spider s)) (mp_selected_queue (t_spider s))"
proof -
  let ?conf = "m_spider_conf (t_spider s)" let ?w = "item_work ?conf" let ?W = "retry_work ?conf"
  let ?q = "\<lambda>s. mp_selected_queue (t_spider s)"
  have taken: "?W (?q s) = ?w qi + ?W (?q s1)" "3 * ?w (dns_counted True qi) = ?w qi"
    "3 * ?w (dns_counted True qi\<lparr>fail_count := fail_count qi + 1\<rparr>) \<le> ?w qi"
    "3 * ?w (qi\<lparr>fail_count := fail_count qi + 1\<rparr>) = ?w qi" if "take_item env s = Some (Inr qi, s1)" for qi s1
    using take_item_effect [OF that] item_work_retry [of qi ?conf] retry_work_pop [of "?q s" qi "?q s1" ?conf] by auto
  have located: "l_item l = dns_counted (without_address env (t_spider s1) qi) qi \<and>
      3 * ?W (?q s2) \<le> 3 * ?W (?q s1) + (if without_address env (t_spider s1) qi then ?w qi else 0)"
    if t: "take_item env s = Some (Inr qi, s1)" and l: "locate env qi s1 = Some (Inr l, s2)" for qi s1 l s2
    using locate_effect [OF l] taken(2) [OF t] retry_work_push [of ?conf "dns_counted True qi" "?q s1"]
    by (auto simp: Let_def split: if_splits)
  show ?thesis
  proof (rule crawl_turn_cases [OF assms(1)])
    assume t: "take_item env s = Some (Inl r, s')"
    with take_item_effect [OF t] assms(2) show ?thesis by (auto simp: retry_work_pop [where conf = ?conf])
  next
    fix qi s1
    assume t: "take_item env s = Some (Inr qi, s1)" and l: "locate env qi s1 = Some (Inl r, s')"
    from locate_effect [OF l] assms(2) taken(1) [OF t] show ?thesis by (auto simp: Let_def)
  next
    fix qi s1 l s2
    assume t: "take_item env s = Some (Inr qi, s1)" and l: "locate env qi s1 = Some (Inr l, s2)"
      and f: "fetch_page env l s2 = Some (Inl r, s')"
    have "3 * ?W (?q s') \<le> 3 * ?W (?q s2) + ?w qi"
      using fetch_page_effect [OF f] located [OF t l] taken(3,4) [OF t]
        retry_work_push [of ?conf "(l_item l)\<lparr>fail_count := fail_count (l_item l) + 1\<rparr>" "?q s2"]
      by (cases "without_address env (t_spider s1) qi") (auto simp: dns_counted_def)
    moreover have "3 * ?W (?q s2) \<le> 3 * ?W (?q s1) + ?w qi" using located [OF t l] by (simp split: if_splits)
    ultimately show ?thesis using taken(1) [OF t] item_work_pos [of ?conf qi] by linarith
  next
    fix qi s1 l s2 lr s3
    assume t: "take_item env s = Some (Inr qi, s1)" and l: "locate env qi s1 = Some (Inr l, s2)"
      and f: "fetch_page env l s2 = Some (Inr lr, s3)" and k: "keep_page env lr s3 = Some (Inl r, s')"
    have "?W (?q s') = ?W (?q s2)" using fetch_page_effect [OF f] keep_page_core [OF k] by (simp add: same_core_def)
    moreover have "3 * ?W (?q s2) \<le> 3 * ?W (?q s1) + ?w qi" using located [OF t l] by (simp split: if_splits)
    ultimately show ?thesis using taken(1) [OF t] item_work_pos [of ?conf qi] by linarith
  qed
qed

lemma crawl_turn_conf:
  assumes "crawl_turn env s = Some (r, s')"
  shows "m_spider_conf (t_spider s') = m_spider_conf (t_spider s)"
proof (rule crawl_turn_cases [OF assms])
  assume "take_item env s = Some (Inl r, s')"
  from take_item_effect [OF this] show ?thesis by simp
next
  fix qi s1
  assume "take_item env s = Some (Inr qi, s1)" "locate env qi s1 = Some (Inl r, s')"
  from take_item_effect [OF this(1)] locate_effect [OF this(2)] show ?thesis by simp
next
  fix qi s1 l s2
  assume "take_item env s = Some (Inr qi, s1)" "locate env qi s1 = Some (Inr l, s2)" "fetch_page env l s2 = Some (Inl r, s')"
  from take_item_effect [OF this(1)] locate_effect [OF this(2)] fetch_page_effect [OF this(3)] show ?thesis by simp
next
  fix qi s1 l s2 lr s3
  assume "take_item env s = Some (Inr qi, s1)" "locate env qi s1 = Some (Inr l, s2)"
    "fetch_page env l s2 = Some (Inr lr, s3)" "keep_page env lr s3 = Some (Inl r, s')"
  from take_item_effect [OF this(1)] locate_effect [OF this(2)] fetch_page_effect [OF this(3)] keep_page_core [OF this(4)]
  show ?thesis by (simp add: same_core_def)
qed

text \<open>The turns of one or more crawling threads, one after the other, with what each turn met.\<close>

fun crawl_turns :: "crawl_env list \<Rightarrow> crawl_state \<Rightarrow> (crawl_result list \<times> crawl_state) option" where
  "crawl_turns [] s = Some ([], s)"
| "crawl_turns (env # envs) s =
     (case crawl_turn env s of None \<Rightarrow> None
      | Some (r, s1) \<Rightarrow> map_option (\<lambda>(rs, s2). (r # rs, s2)) (crawl_turns envs s1))"

text \<open>C10: Retrying ends: the items in the selected queue carry a finite amount of work, and each turn that takes
  an item whose site is not busy uses some of it up, even when items are put back or doubled. So the
  number of such turns, however the network answers, is at most the work the queue holds at the start,
  until the selecting thread fills it again.\<close>

theorem retries_end:
  assumes "crawl_turns envs s = Some (rs, s')" "set rs \<inter> {Null_page_error, Queue_empty, Delayed} = {}"
  shows "length rs + retry_work (m_spider_conf (t_spider s)) (mp_selected_queue (t_spider s')) \<le>
    retry_work (m_spider_conf (t_spider s)) (mp_selected_queue (t_spider s))"
  using assms
proof (induction envs arbitrary: s rs)
  case (Cons env envs)
  obtain r s1 rs' where 1: "crawl_turn env s = Some (r, s1)" "crawl_turns envs s1 = Some (rs', s')" "rs = r # rs'"
    using Cons.prems(1) by (auto split: option.splits)
  have "length rs' + retry_work (m_spider_conf (t_spider s)) (mp_selected_queue (t_spider s')) \<le>
      retry_work (m_spider_conf (t_spider s)) (mp_selected_queue (t_spider s1))"
    using Cons.IH [OF 1(2)] Cons.prems(2) 1(3) crawl_turn_conf [OF 1(1)] by auto
  moreover have "retry_work (m_spider_conf (t_spider s)) (mp_selected_queue (t_spider s1)) <
      retry_work (m_spider_conf (t_spider s)) (mp_selected_queue (t_spider s))"
    by (rule crawl_turn_work [OF 1(1)]) (use Cons.prems(2) 1(3) in auto)
  ultimately show ?case using 1(3) by simp
qed simp

lemma retries_end_witness:
  "\<exists>s'. crawl_turns [crawled_env] crawled_state = Some ([Crawled], s') \<and>
     1 + retry_work (m_spider_conf (t_spider crawled_state)) (mp_selected_queue (t_spider s')) \<le>
       retry_work (m_spider_conf (t_spider crawled_state)) (mp_selected_queue (t_spider crawled_state))"
proof -
  obtain s' where "crawl_turn crawled_env crawled_state = Some (Crawled, s')" using crawled_turn by blast
  then have t: "crawl_turns [crawled_env] crawled_state = Some ([Crawled], s')" by simp
  from retries_end [OF t] t show ?thesis by auto
qed

end
