(* ===== verification/Crawl_Thread.thy ===== *)
theory Crawl_Thread
  imports Crawl
begin

text \<open>
  A crawling thread as a whole (\<open>crawl_thread\<close>, spider.cpp): what it loads before its loop, the pause
  at the head of the loop, and the turn with the rules the thread has loaded in the place of the two
  parameters \<open>link_type\<close> and \<open>link_norm\<close>. The lemmas say what the rule file of the spider means for
  the pools.
\<close>

section \<open>The start of a thread\<close>

text \<open>
  \<open>th_rules\<close> is the text of the file of strong rules, \<open>None\<close> when it cannot be opened;
  \<open>th_domain_of\<close> is the domain that \<open>ucUrl\<close> gives, \<open>th_search\<close> and \<open>th_replace\<close> are
  \<open>boost::regex_search\<close> and \<open>boost::regex_replace\<close>; the last three fields say whether
  the extractor, the recogniser and the page buffer are had.
\<close>

record thread_env =
  th_codes :: code_env
  th_recog :: recog_env
  th_rules :: "string option"
  th_domain_of :: "string \<Rightarrow> string"
  th_search :: "string \<Rightarrow> string \<Rightarrow> bool"
  th_replace :: "string \<Rightarrow> string \<Rightarrow> string \<Rightarrow> string"
  th_extractor_ok :: bool
  th_recognizer_ok :: bool
  th_buffer_ok :: bool

text \<open>\<open>Exits\<close> ends the process, by \<open>exit\<close> or by the exception of a bad expression; \<open>None\<close> is a
  thread that never gets to its loop, or a read outside the memory.\<close>

datatype thread_begin = Exits | Runs UTF8Converter rule_map

definition thread_start :: "thread_env \<Rightarrow> UTF8Converter \<Rightarrow> thread_begin option" where
  "thread_start th conv =
     (case utf8_init (th_codes th) conv of (rc, conv1) \<Rightarrow>
        if rc \<noteq> 0 then Some Exits
        else (case load_rules (th_recog th) (th_rules th) [] of
                None \<Rightarrow> None
              | Some (Inl stop) \<Rightarrow> (if stop = Wild then None else Some Exits)
              | Some (Inr m) \<Rightarrow>
                  if th_extractor_ok th \<and> th_recognizer_ok th \<and> th_buffer_ok th then Some (Runs conv1 m)
                  else Some Exits))"

section \<open>The loop\<close>

definition with_rules :: "thread_env \<Rightarrow> rule_map \<Rightarrow> crawl_env \<Rightarrow> crawl_env" where
  "with_rules th m env = env\<lparr>codes := th_codes th,
     link_type := get_type (th_domain_of th) (th_search th) m,
     link_norm := normalize (th_domain_of th) (th_replace th) m\<rparr>"

text \<open>One pass through the loop: a spider that is paused makes the thread sleep (no result), otherwise
  it is a turn.\<close>

definition thread_turn :: "thread_env \<Rightarrow> rule_map \<Rightarrow> crawl_env \<Rightarrow> crawl_state
    \<Rightarrow> (crawl_result option \<times> crawl_state) option" where
  "thread_turn th m env s =
     (if spider_paused (m_spider_conf (t_spider s)) \<noteq> 0 then Some (None, s)
      else map_option (\<lambda>(r, s'). (Some r, s')) (crawl_turn (with_rules th m env) s))"

lemma thread_turn_cases:
  assumes "thread_turn th m env s = Some (x, s')"
  obtains (paused) "x = None" "s' = s" "spider_paused (m_spider_conf (t_spider s)) \<noteq> 0"
  | (turn) r where "x = Some r" "crawl_turn (with_rules th m env) s = Some (r, s')"
  using assms by (auto simp: thread_turn_def split: if_splits)

section \<open>What a rule file means\<close>

text \<open>The rules of a section are there or the section has no entry, so \<open>normalize\<close> falls back to the
  empty string exactly for a domain without normalising rules.\<close>

definition no_empty_rules :: "rule_map \<Rightarrow> bool" where
  "no_empty_rules m \<longleftrightarrow> (\<forall>d rs n. map_of m d = Some rs \<longrightarrow> map_of rs n \<noteq> Some [])"

lemma no_empty_add_rule: "no_empty_rules m \<Longrightarrow> no_empty_rules (add_rule d n r m)"
  by (auto simp: no_empty_rules_def add_rule_def Let_def split: option.splits)

lemma no_empty_fold_add_rule: "no_empty_rules m \<Longrightarrow> no_empty_rules (fold (\<lambda>p. add_rule d n (mk p)) ps m)"
  by (induction ps arbitrary: m) (simp_all add: no_empty_add_rule)

lemma no_empty_sections: "no_empty_rules m \<Longrightarrow> no_empty_rules (fold add_section ts m)"
proof (induction ts arbitrary: m)
  case (Cons t ts)
  have "no_empty_rules (sm_insert (st_domain t) [] m)"
    using Cons.prems by (auto simp: no_empty_rules_def sm_insert_def split: option.splits)
  then have "no_empty_rules (add_section t m)" by (simp add: add_section_def no_empty_fold_add_rule)
  then show ?case by (simp add: Cons.IH)
qed simp

lemma normalize_eq:
  assumes "no_empty_rules m"
  shows "normalize domain_of replace m url =
    (let rs = rules_under m (domain_of url) ''normalize''
     in if rs = [] then [] else fold (\<lambda>(re, rep) u. replace u re rep) rs url)"
  using assms by (auto simp: normalize_def rules_under_def no_empty_rules_def Let_def split: option.split)

lemma normalize_written_none:
  assumes "\<forall>t \<in> set ts. st_domain t = domain_of url \<longrightarrow> st_norms t = []"
  shows "normalize domain_of replace (fold add_section ts []) url = []"
proof -
  have "no_empty_rules (fold add_section ts [])"
    by (rule no_empty_sections) (simp add: no_empty_rules_def)
  moreover have "rules_under (fold add_section ts []) (domain_of url) ''normalize'' = []"
    using assms by (auto simp: rules_under_add_sections rules_under_def [of "[]"])
  ultimately show ?thesis by (simp add: normalize_eq)
qed

lemma thread_start_written:
  assumes "stack_stops (th_recog th)" "list_all (good_section (bad_regex (th_recog th))) ts"
    and "th_rules th = Some (conf_text ts)" "thread_start th conv = Some (Runs conv' m)"
  shows "m = fold add_section ts []"
  using assms(4) load_rules_conf_text [OF assms(1,2)]
  by (auto simp: thread_start_def assms(3) split: prod.splits if_splits)

text \<open>A link after the normalising rules that are written for its domain, one after the other; the empty
  string when none is.\<close>

definition written_url :: "thread_env \<Rightarrow> section_text list \<Rightarrow> string \<Rightarrow> string" where
  "written_url th ts l =
     (let ns = concat (map st_norms (filter (\<lambda>t. st_domain t = th_domain_of th l) ts))
      in if ns = [] then [] else fold (\<lambda>n u. th_replace th u (fst (norm_rule n)) (snd (norm_rule n))) ns l)"

lemma normalize_written:
  "normalize (th_domain_of th) (th_replace th) (fold add_section ts []) l = written_url th ts l"
proof -
  have "no_empty_rules (fold add_section ts [])"
    by (rule no_empty_sections) (simp add: no_empty_rules_def)
  moreover define ns where "ns = concat (map st_norms (filter (\<lambda>t. st_domain t = th_domain_of th l) ts))"
  have "rules_under (fold add_section ts []) (th_domain_of th l) ''normalize'' = map norm_rule ns"
    by (simp add: ns_def rules_under_add_sections rules_under_def [of "[]"] map_concat comp_def)
  ultimately show ?thesis
    by (simp add: normalize_eq written_url_def ns_def [symmetric] fold_map comp_def split_def)
qed

text \<open>Links that can be parsed and that \<open>P\<close> holds of, as URLs of a pool; \<open>f\<close> is how the link is written.\<close>

definition rule_links :: "url_parser \<Rightarrow> int \<Rightarrow> (string \<Rightarrow> bool) \<Rightarrow> (string \<Rightarrow> string) \<Rightarrow> string list \<Rightarrow> UrlInfo list" where
  "rule_links uc ty P f links = map (\<lambda>l. (url_info 0 (the (uc l)))\<lparr>ui_url := f l, ui_type := ty\<rparr>)
     (filter (\<lambda>l. uc l \<noteq> None \<and> P l) links)"

lemma cate_links_rule:
  "cate_links conf uc ty which links = (if extract_cate_url conf = 0 then []
     else rule_links uc (if which = QUEUE_TYPE_CPQ then PCATE else OCATE) (\<lambda>l. ty l = CATE_LINK) (\<lambda>l. l) links)"
proof (induction links)
  case (Cons l links)
  then show ?case by (cases "uc l") (auto simp: cate_links_def rule_links_def)
qed (simp add: cate_links_def rule_links_def)

lemma item_links_rule:
  "item_links conf uc ty norm which links = (if extract_item_url conf = 0 then []
     else rule_links uc (if which = QUEUE_TYPE_CPQ then PITEM else OITEM) (\<lambda>l. ty l = ITEM_LINK)
       (\<lambda>l. if normalize_url conf \<noteq> 0 then norm l else l) links)"
proof (induction links)
  case (Cons l links)
  then show ?case by (cases "uc l") (auto simp: item_links_def rule_links_def)
qed (simp add: item_links_def rule_links_def)

lemma push_url_short: "length (ui_url u) < 4 \<Longrightarrow> push_url u p = p"
  by (simp add: spider_defs)

lemma fold_push_url_short: "\<forall>u \<in> set us. length (ui_url u) < 4 \<Longrightarrow> fold push_url us p = p"
  by (induction us) (simp_all add: push_url_short)

section \<open>Properties\<close>

text \<open>A thread for the witnesses: an expression matches a URL that contains it, and every URL is of one domain.\<close>

definition sample_thread :: "section_text list \<Rightarrow> thread_env" where
  "sample_thread ts = \<lparr>th_codes = sample_codes, th_recog = plain_env, th_rules = Some (conf_text ts),
     th_domain_of = \<lambda>_. ''a.cn'', th_search = \<lambda>u re. sublist re u, th_replace = \<lambda>u re rep. u,
     th_extractor_ok = True, th_recognizer_ok = True, th_buffer_ok = True\<rparr>"

lemma sample_thread_runs:
  assumes "list_all (good_section (bad_regex plain_env)) ts"
  shows "\<exists>conv'. thread_start (sample_thread ts) (utf8_new 0 [] 0) = Some (Runs conv' (fold add_section ts []))"
  using load_rules_conf_text [OF sample_section_good(1) assms]
  by (simp add: thread_start_def sample_thread_def utf8_init_def sample_codes_def)

text \<open>C4: The pools follow the rule file: in a thread that has loaded a well-formed file, the links of a page go to
  the pools by the expressions written for their domain, in the order of the links: to the item pool
  when an item expression matches, to the category pool when only a category expression does, nowhere
  otherwise. \<open>EXTRACT_ITEM_URL\<close> and \<open>EXTRACT_CATE_URL\<close> switch the two kinds on; with \<open>NORMALIZE_URL\<close> an item
  link is first rewritten by the normalising rules written for its domain, and is the empty string, which
  no pool takes, when there are none. The pools are the priority pools for a page of the priority
  category queue and the ordinary pools for every other page; the other two pools stay as they are.\<close>

theorem links_follow_rules:
  assumes "stack_stops (th_recog th)" "list_all (good_section (bad_regex (th_recog th))) ts"
    and "th_rules th = Some (conf_text ts)" "thread_start th conv = Some (Runs conv' m)"
  shows "let is_item = matches_some (th_domain_of th) (th_search th) st_items ts;
      is_cate = matches_some (th_domain_of th) (th_search th) st_cates ts;
      conf = m_spider_conf sp; prio = (which = QUEUE_TYPE_CPQ);
      items = (if extract_item_url conf = 0 then []
        else rule_links uc (if prio then PITEM else OITEM) is_item
          (\<lambda>l. if normalize_url conf \<noteq> 0 then written_url th ts l else l) links);
      cates = (if extract_cate_url conf = 0 then []
        else rule_links uc (if prio then PCATE else OCATE) (\<lambda>l. is_cate l \<and> \<not> is_item l) (\<lambda>l. l) links);
      sp' = write_to_queue uc (link_type (with_rules th m env)) (link_norm (with_rules th m env)) which links sp
    in if prio
       then mp_ipq sp' = fold push_url items (mp_ipq sp) \<and> mp_cpq sp' = fold push_url cates (mp_cpq sp) \<and>
            mp_ioq sp' = mp_ioq sp \<and> mp_coq sp' = mp_coq sp
       else mp_ioq sp' = fold push_url items (mp_ioq sp) \<and> mp_coq sp' = fold push_url cates (mp_coq sp) \<and>
            mp_ipq sp' = mp_ipq sp \<and> mp_cpq sp' = mp_cpq sp"
proof -
  let ?ty = "link_type (with_rules th m env)" and ?norm = "link_norm (with_rules th m env)"
  have known: "matches_some (th_domain_of th) (th_search th) part ts l \<Longrightarrow> th_domain_of th l \<in> st_domain ` set ts"
    for part l by (force simp: matches_some_def list_ex_iff)
  have ty: "?ty l = (if th_domain_of th l \<notin> st_domain ` set ts then - 1
      else if matches_some (th_domain_of th) (th_search th) st_items ts l then 1
      else if matches_some (th_domain_of th) (th_search th) st_cates ts l then 2 else 0)" for l
    by (simp add: with_rules_def thread_start_written [OF assms] get_type_written)
  have i: "(\<lambda>l. ?ty l = ITEM_LINK) = matches_some (th_domain_of th) (th_search th) st_items ts"
    using known by (auto simp: ty ITEM_LINK_def fun_eq_iff)
  have c: "(\<lambda>l. ?ty l = CATE_LINK) = (\<lambda>l. matches_some (th_domain_of th) (th_search th) st_cates ts l \<and>
      \<not> matches_some (th_domain_of th) (th_search th) st_items ts l)"
    using known by (auto simp: ty CATE_LINK_def fun_eq_iff)
  have n: "?norm = written_url th ts"
    by (simp add: fun_eq_iff with_rules_def thread_start_written [OF assms] normalize_written)
  show ?thesis
    using write_to_queue_links [of sp uc ?ty ?norm which links]
    unfolding cate_links_rule item_links_rule i c n Let_def by (cases "which = QUEUE_TYPE_CPQ") simp_all
qed

lemma links_follow_rules_witness:
  "\<exists>conv' m. thread_start (sample_thread [sample_section]) (utf8_new 0 [] 0) = Some (Runs conv' m) \<and>
     (let sp' = write_to_queue sample_parser
         (link_type (with_rules (sample_thread [sample_section]) m sample_env))
         (link_norm (with_rules (sample_thread [sample_section]) m sample_env)) QUEUE_TYPE_COQ
         [''http://a.cn/p/1'', ''http://a.cn/list'']
         (spider_new (conf_zeroed\<lparr>extract_cate_url := 7, extract_item_url := 7, normalize_url := 1\<rparr>))
      in map ui_url (m_url_queue (mp_ioq sp')) = [''http://a.cn/p/1''] \<and>
         map ui_url (m_url_queue (mp_coq sp')) = [''http://a.cn/list''])"
proof -
  let ?th = "sample_thread [sample_section]" and ?m = "fold add_section [sample_section] []"
  let ?sp = "spider_new (conf_zeroed\<lparr>extract_cate_url := 7, extract_item_url := 7, normalize_url := 1\<rparr>)"
  let ?links = "[''http://a.cn/p/1'', ''http://a.cn/list'']"
  let ?item = "matches_some (th_domain_of ?th) (th_search ?th) st_items [sample_section]"
  let ?cate = "matches_some (th_domain_of ?th) (th_search ?th) st_cates [sample_section]"
  let ?sp' = "write_to_queue sample_parser (link_type (with_rules ?th ?m sample_env))
      (link_norm (with_rules ?th ?m sample_env)) QUEUE_TYPE_COQ ?links ?sp"
  obtain conv' where st: "thread_start ?th (utf8_new 0 [] 0) = Some (Runs conv' ?m)"
    using sample_thread_runs [OF sample_section_good(2)] by blast
  have ok: "stack_stops (th_recog ?th)" "list_all (good_section (bad_regex (th_recog ?th))) [sample_section]"
    using sample_section_good by (simp_all add: sample_thread_def)
  have conf: "extract_item_url (m_spider_conf ?sp) = 7" "extract_cate_url (m_spider_conf ?sp) = 7"
    "normalize_url (m_spider_conf ?sp) = 1" by (simp_all add: spider_new_def)
  have q: "mp_ioq ?sp' = fold push_url (rule_links sample_parser OITEM ?item (written_url ?th [sample_section]) ?links) (mp_ioq ?sp)"
    "mp_coq ?sp' = fold push_url (rule_links sample_parser OCATE (\<lambda>l. ?cate l \<and> \<not> ?item l) (\<lambda>l. l) ?links) (mp_coq ?sp)"
    using links_follow_rules [OF ok _ st, of ?sp QUEUE_TYPE_COQ sample_parser ?links sample_env]
    by (simp_all add: Let_def conf sample_thread_def)
  have m: "?item ''http://a.cn/p/1''" "\<not> ?item ''http://a.cn/list''" "?cate ''http://a.cn/list''" "\<not> ?cate ''http://a.cn/p/1''"
    by (simp_all add: matches_some_def sample_thread_def sample_section_def rule_text_def blank_def sublist_code)
  have w: "written_url ?th [sample_section] l = l" for l
    by (simp add: written_url_def sample_thread_def sample_section_def)
  have l: "map ui_url (m_url_queue (mp_ioq ?sp')) = [''http://a.cn/p/1'']"
    "map ui_url (m_url_queue (mp_coq ?sp')) = [''http://a.cn/list'']"
    unfolding q by (simp_all add: rule_links_def m w sample_parser_def url_info_def spider_new_def pool_new_def spider_defs)
  show ?thesis by (intro exI [of _ conv'] exI [of _ ?m] conjI st) (simp only: Let_def l simp_thms)
qed



end
