(* ===== verification/Crawl_Steps.thy ===== *)
theory Crawl_Steps
  imports Crawl_Thread
begin

text \<open>
  The loop of \<open>crawl_thread\<close> (spider.cpp) as a machine of program points. Each step does the calls up to
  the next point at which another thread matters: the queue, the DNS cache, the level pool, the network.
  A whole turn is the run of the machine without an interruption, and its stages are compositions of
  the machine's steps.
\<close>

section \<open>The program points\<close>

text \<open>
  At the head of the loop; with an item from the queue; with its site and address; with a slot of the
  level pool; with what was fetched, the slot still taken (the flag is the 404 of the first fetch); and
  after the slot was given back: fetched, recorded, and converted.
\<close>

datatype crawl_point =
  At_head | Took SSQItem | Located located | Granted located | Downloaded bool located fetched
  | Fetched located fetched | Recorded located fetched | Converted located string

section \<open>The steps\<close>

definition resolve :: "crawl_env \<Rightarrow> SSQItem \<Rightarrow> crawl_state \<Rightarrow> located stage" where
  "resolve env qi s =
     (case parse_url env (sq_url qi) of
        None \<Rightarrow> end_with_error env Format_error (sq_url qi) ''FORMAT_ERROR'' s
      | Some (_, site, domain) \<Rightarrow>
          (case get_site_ip (m_spider_conf (t_spider s)) (dns_net env site) (cstr site) (m_dns_client (t_spider s)) of
             None \<Rightarrow> None
           | Some (ip, cache) \<Rightarrow>
               (let s1 = on_spider (\<lambda>sp. sp\<lparr>m_dns_client := cache\<rparr>) s;
                    qi1 = (if ip = no_ip then qi\<lparr>dns_count := dns_count qi + 1\<rparr> else qi)
                in Some (Inr \<lparr>l_item = qi1, l_site = site, l_domain = domain, l_ip = ip\<rparr>,
                         if ip = no_ip then on_spider (requeue qi1) s1 else s1))))"

definition ask_slot :: "crawl_env \<Rightarrow> located \<Rightarrow> crawl_state \<Rightarrow> located stage" where
  "ask_slot env l s =
     (case is_crawl_enabled (m_spider_conf (t_spider s)) (clock_ms env) (l_site l) (mp_level_pool (t_spider s)) of
        (False, lp) \<Rightarrow> Some (Inl Delayed, on_spider (\<lambda>sp. requeue (l_item l) (sp\<lparr>mp_level_pool := lp\<rparr>)) s)
      | (True, lp) \<Rightarrow> Some (Inr l, on_spider (\<lambda>sp. sp\<lparr>mp_level_pool := lp\<rparr>) s))"

definition download :: "crawl_env \<Rightarrow> located \<Rightarrow> crawl_state \<Rightarrow> (bool \<times> fetched) stage" where
  "download env l s =
     (let conf = m_spider_conf (t_spider s); r0 = fetch env 0 (sq_url (l_item l)) (l_ip l)
      in if f_length r0 = - 404 then Some (Inr (True, r0), s)
         else (case follow env conf (l_site l) (nat (max_url_redirect_count conf)) 1 (l_ip l) r0
                      (m_dns_client (t_spider s)) of
                 None \<Rightarrow> None
               | Some (r, cache) \<Rightarrow> Some (Inr (False, r), on_spider (m_dns_client_update (\<lambda>_. cache)) s)))"

definition give_back :: "crawl_env \<Rightarrow> bool \<Rightarrow> located \<Rightarrow> fetched \<Rightarrow> crawl_state \<Rightarrow> (located \<times> fetched) stage" where
  "give_back env missing l r s =
     (let conf = m_spider_conf (t_spider s); url = sq_url (l_item l); s1 = on_spider (finish (l_site l)) s
      in if missing then end_with_error env Not_found url ''NOT_FOUND'' s1
         else if f_length r = - 404 then end_with_error env Redirect_not_found url ''REDIRECT_NOT_FOUND'' s1
         else if f_length r < 0
         then Some (Inl Net_fail, on_spider (requeue ((l_item l)\<lparr>fail_count := fail_count (l_item l) + 1\<rparr>)) s1)
         else if size_fails conf (f_length r)
         then end_with_error env Size_fail url (''CONTENT_LEN_INVALID ('' @ dec_int (f_length r) @ '')'') s1
         else Some (Inr (l, r), s1))"

text \<open>The point behind a step: the head of the loop, with the result of the turn, when the step ends it.\<close>

definition arrive :: "('a \<Rightarrow> crawl_point) \<Rightarrow> 'a stage \<Rightarrow> ((crawl_result option \<times> crawl_point) \<times> crawl_state) option" where
  "arrive at r = map_option (\<lambda>(x, s). (case x of Inl c \<Rightarrow> (Some c, At_head) | Inr a \<Rightarrow> (None, at a), s)) r"

fun crawl_step :: "crawl_env \<Rightarrow> crawl_point \<Rightarrow> crawl_state
    \<Rightarrow> ((crawl_result option \<times> crawl_point) \<times> crawl_state) option" where
  "crawl_step env At_head s = arrive Took (take_item env s)"
| "crawl_step env (Took qi) s = arrive Located (resolve env qi s)"
| "crawl_step env (Located l) s = arrive Granted (ask_slot env l s)"
| "crawl_step env (Granted l) s = arrive (\<lambda>(missing, r). Downloaded missing l r) (download env l s)"
| "crawl_step env (Downloaded missing l r) s = arrive (\<lambda>(l, r). Fetched l r) (give_back env missing l r s)"
| "crawl_step env (Fetched l r) s = arrive (\<lambda>(l, r). Recorded l r) (record_crawl env (l, r) s)"
| "crawl_step env (Recorded l r) s = arrive (\<lambda>(l, c). Converted l c) (convert_page env (l, r) s)"
| "crawl_step env (Converted l c) s = arrive (\<lambda>_. At_head) (store_page env (l, c) s)"

text \<open>A spider that is paused holds its threads at the head of the loop.\<close>

definition thread_step :: "thread_env \<Rightarrow> rule_map \<Rightarrow> crawl_env \<Rightarrow> crawl_point \<Rightarrow> crawl_state
    \<Rightarrow> ((crawl_result option \<times> crawl_point) \<times> crawl_state) option" where
  "thread_step th m env p s =
     (if p = At_head \<and> spider_paused (m_spider_conf (t_spider s)) \<noteq> 0 then Some ((None, At_head), s)
      else crawl_step (with_rules th m env) p s)"

section \<open>The stages are compositions of steps\<close>

lemma locate_steps: "locate env qi s = then_stage (resolve env qi s) (ask_slot env)"
  by (auto simp: locate_def resolve_def ask_slot_def then_stage_def end_with_error_def Let_def on_spider_def requeue_def
      split: option.split prod.split bool.split)

lemma fetch_page_steps:
  "fetch_page env l s = then_stage (download env l s) (\<lambda>(missing, r). give_back env missing l r)"
  by (auto simp: fetch_page_def download_def give_back_def then_stage_def end_with_error_def Let_def on_spider_def
      finish_def split: option.split)

section \<open>A run without interruption\<close>

fun turn_steps :: "crawl_env \<Rightarrow> nat \<Rightarrow> crawl_point \<Rightarrow> crawl_state \<Rightarrow> (crawl_result \<times> crawl_state) option" where
  "turn_steps env 0 p s = None"
| "turn_steps env (Suc n) p s =
     (case crawl_step env p s of None \<Rightarrow> None
      | Some ((Some r, _), s') \<Rightarrow> Some (r, s')
      | Some ((None, p'), s') \<Rightarrow> turn_steps env n p' s')"

lemma turn_steps_arrive:
  assumes "crawl_step env p s = arrive at r"
  shows "turn_steps env (Suc n) p s =
    (case r of None \<Rightarrow> None | Some (Inl c, s') \<Rightarrow> Some (c, s') | Some (Inr a, s') \<Rightarrow> turn_steps env n (at a) s')"
  by (simp add: assms arrive_def split: option.split sum.split)

declare turn_steps.simps(2) [simp del]

text \<open>The end of a turn, from the outcome of its stages.\<close>

definition turn_end :: "unit stage \<Rightarrow> (crawl_result \<times> crawl_state) option" where
  "turn_end r = map_option (\<lambda>(x, s). (case x of Inl c \<Rightarrow> c | Inr _ \<Rightarrow> Crawled, s)) r"

lemma turn_steps_stage:
  assumes "crawl_step env p s = arrive at r" "\<And>a s'. turn_steps env n (at a) s' = turn_end (k a s')"
  shows "turn_steps env (Suc n) p s = turn_end (then_stage r k)"
  by (simp add: turn_steps_arrive [OF assms(1)] assms(2) turn_end_def then_stage_def split: option.split sum.split)

lemma turn_steps_store: "turn_steps env (Suc n) (Converted l c) s = turn_end (store_page env (l, c) s)"
  using store_page_core [of env "(l, c)" s]
  by (auto simp: turn_steps_arrive [of env "Converted l c"] turn_end_def split: option.split sum.split)

lemma turn_steps_keep: "turn_steps env (Suc (Suc (Suc n))) (Fetched l r) s = turn_end (keep_page env (l, r) s)"
  unfolding keep_page_def
proof (rule turn_steps_stage [OF crawl_step.simps(6)])
  fix a s'
  show "turn_steps env (Suc (Suc n)) (case a of (l, r) \<Rightarrow> Recorded l r) s' =
      turn_end (then_stage (convert_page env a s') (store_page env))"
    by (cases a) (auto intro!: turn_steps_stage simp: turn_steps_store split: prod.split)
qed

lemma crawl_turn_end:
  "crawl_turn env s = turn_end (then_stage (take_item env s) (\<lambda>qi s1. then_stage (locate env qi s1)
     (\<lambda>l s2. then_stage (fetch_page env l s2) (keep_page env))))"
  by (auto simp: crawl_turn_def turn_end_def keep_page_def [abs_def] split: option.split sum.split)

lemma then_stage_assoc: "then_stage (then_stage r f) g = then_stage r (\<lambda>a s. then_stage (f a s) g)"
  by (auto simp: then_stage_def split: option.split sum.split)

lemma turn_steps_give_back:
  "turn_steps env (Suc (Suc (Suc (Suc n)))) (Downloaded missing l r) s =
    turn_end (then_stage (give_back env missing l r s) (keep_page env))"
  by (rule turn_steps_stage [OF crawl_step.simps(5)]) (simp add: turn_steps_keep split: prod.split)

lemma turn_steps_fetch:
  "turn_steps env (Suc (Suc (Suc (Suc (Suc n))))) (Granted l) s =
    turn_end (then_stage (fetch_page env l s) (keep_page env))"
  unfolding fetch_page_steps then_stage_assoc
  by (rule turn_steps_stage [OF crawl_step.simps(4)]) (simp add: turn_steps_give_back split: prod.split)

lemma turn_steps_locate:
  "turn_steps env (Suc (Suc (Suc (Suc (Suc (Suc (Suc n))))))) (Took qi) s =
    turn_end (then_stage (locate env qi s) (\<lambda>l s1. then_stage (fetch_page env l s1) (keep_page env)))"
  unfolding locate_steps then_stage_assoc
  by (rule turn_steps_stage [OF crawl_step.simps(2)], rule turn_steps_stage [OF crawl_step.simps(3)])
    (simp add: turn_steps_fetch)

section \<open>What a step does to the queue and to the level pool\<close>

text \<open>The site whose slot a thread holds at a point, and the item it has in hand.\<close>

fun slot :: "crawl_point \<Rightarrow> string option" where
  "slot (Granted l) = Some (l_site l)"
| "slot (Downloaded missing l r) = Some (l_site l)"
| "slot p = None"

fun in_hand :: "crawl_point \<Rightarrow> SSQItem option" where
  "in_hand At_head = None"
| "in_hand (Took qi) = Some qi"
| "in_hand (Located l) = Some (l_item l)"
| "in_hand (Granted l) = Some (l_item l)"
| "in_hand (Downloaded missing l r) = Some (l_item l)"
| "in_hand (Fetched l r) = Some (l_item l)"
| "in_hand (Recorded l r) = Some (l_item l)"
| "in_hand (Converted l c) = Some (l_item l)"

lemma arrive_Some:
  "arrive at r = Some ((x, p'), s') \<longleftrightarrow>
   (\<exists>c. r = Some (Inl c, s') \<and> x = Some c \<and> p' = At_head) \<or> (\<exists>a. r = Some (Inr a, s') \<and> x = None \<and> p' = at a)"
proof (cases r)
  case (Some y)
  then show ?thesis by (cases y; cases "fst y") (auto simp: arrive_def)
qed (simp add: arrive_def)

lemma resolve_effect:
  assumes "resolve env qi s = Some (x, s1)"
  shows "mp_level_pool (t_spider s1) = mp_level_pool (t_spider s) \<and> m_spider_conf (t_spider s1) = m_spider_conf (t_spider s) \<and>
    (case x of
       Inl r \<Rightarrow> r = Format_error \<and> mp_selected_queue (t_spider s1) = mp_selected_queue (t_spider s)
     | Inr l \<Rightarrow> (let b = (l_ip l = no_ip); q = mp_selected_queue (t_spider s)
         in l_item l = dns_counted b qi \<and>
            mp_selected_queue (t_spider s1) = (if b then snd (sq_push (l_item l) q) else q)))"
  using assms
  by (auto simp: resolve_def same_core_def dns_counted_def requeue_def Let_def split: option.splits if_splits
      dest!: end_with_error_core)

lemma ask_slot_effect:
  assumes "ask_slot env l s = Some (x, s1)"
  shows "m_spider_conf (t_spider s1) = m_spider_conf (t_spider s) \<and>
    (case x of
       Inl r \<Rightarrow> r = Delayed \<and> mp_level_pool (t_spider s1) = mp_level_pool (t_spider s) \<and>
         mp_selected_queue (t_spider s1) = snd (sq_push (l_item l) (mp_selected_queue (t_spider s)))
     | Inr l' \<Rightarrow> l' = l \<and> mp_selected_queue (t_spider s1) = mp_selected_queue (t_spider s) \<and>
         is_crawl_enabled (m_spider_conf (t_spider s)) (clock_ms env) (l_site l) (mp_level_pool (t_spider s)) =
           (True, mp_level_pool (t_spider s1)))"
  using assms lp.deny [of "m_spider_conf (t_spider s)" "clock_ms env" "l_site l" "mp_level_pool (t_spider s)"]
  by (auto simp: ask_slot_def requeue_def split: prod.splits bool.splits)

lemma download_effect:
  "download env l s = Some (x, s1) \<Longrightarrow> same_core s s1 \<and> isl x = False"
  by (auto simp: download_def same_core_def Let_def split: option.splits if_splits)

lemma give_back_effect:
  assumes "give_back env missing l r s = Some (x, s1)"
  shows "m_spider_conf (t_spider s1) = m_spider_conf (t_spider s) \<and>
    mp_level_pool (t_spider s1) = finish_crawl (l_site l) (mp_level_pool (t_spider s)) \<and>
    (case x of Inr lr \<Rightarrow> lr = (l, r) \<and> mp_selected_queue (t_spider s1) = mp_selected_queue (t_spider s)
     | Inl c \<Rightarrow> c \<in> {Not_found, Redirect_not_found, Size_fail} \<and> mp_selected_queue (t_spider s1) = mp_selected_queue (t_spider s) \<or>
         c = Net_fail \<and> mp_selected_queue (t_spider s1) =
           snd (sq_push ((l_item l)\<lparr>fail_count := fail_count (l_item l) + 1\<rparr>) (mp_selected_queue (t_spider s))))"
  using assms
  by (auto simp: give_back_def Let_def same_core_def finish_def requeue_def split: if_splits dest!: end_with_error_core)

lemmas step_effects = take_item_effect resolve_effect ask_slot_effect give_back_effect
lemmas core_effects = download_effect record_crawl_core convert_page_core store_page_core

lemma crawl_step_conf:
  "crawl_step env p s = Some ((x, p'), s') \<Longrightarrow> m_spider_conf (t_spider s') = m_spider_conf (t_spider s)"
  by (cases p) (auto simp: arrive_Some same_core_def dest: step_effects core_effects)

text \<open>The count of running fetches of every site follows the slots the threads hold.\<close>

lemma crawl_step_running:
  assumes "crawl_step env p s = Some ((x, p'), s')"
    and "\<And>k. slot p = Some k \<Longrightarrow> last_start (mp_level_pool (t_spider s)) k \<noteq> None"
  shows "running (mp_level_pool (t_spider s')) site =
    running (mp_level_pool (t_spider s)) site + of_bool (slot p' = Some site) - of_bool (slot p = Some site)"
proof (cases p)
  case (Located l)
  show ?thesis
    using assms(1) lp.grant_count [of "m_spider_conf (t_spider s)" "clock_ms env" "l_site l" "mp_level_pool (t_spider s)" site]
    by (auto simp: Located arrive_Some dest!: ask_slot_effect)
next
  case (Downloaded missing l r)
  show ?thesis
    using assms(1) lp.release_count [of "mp_level_pool (t_spider s)" "l_site l" site] assms(2) [of "l_site l"]
    by (auto simp: Downloaded arrive_Some dest!: give_back_effect)
next
  case (Granted l)
  then show ?thesis
    using assms(1) by (auto simp: arrive_Some same_core_def dest!: download_effect)
qed (use assms(1) in \<open>auto simp: arrive_Some same_core_def dest!: take_item_effect resolve_effect core_effects\<close>)

text \<open>The limit holds: a slot is granted below it only.\<close>

lemma crawl_step_limit:
  assumes "crawl_step env p s = Some ((x, p'), s')"
    and "0 < default_max_concurrent_thread_count (m_spider_conf (t_spider s))"
    and "default_max_concurrent_thread_count (m_spider_conf (t_spider s)) \<le> limit"
    and "slot p' = Some site" "slot p \<noteq> Some site" "\<And>k. slot p = Some k \<Longrightarrow> last_start (mp_level_pool (t_spider s)) k \<noteq> None"
  shows "running (mp_level_pool (t_spider s')) site \<le> limit"
proof (cases p)
  case (Located l)
  from assms(1,4) have g: "l_site l = site"
    "is_crawl_enabled (m_spider_conf (t_spider s)) (clock_ms env) site (mp_level_pool (t_spider s)) = (True, mp_level_pool (t_spider s'))"
    by (auto simp: Located arrive_Some dest!: ask_slot_effect)
  then have "running (mp_level_pool (t_spider s)) site < default_max_concurrent_thread_count (m_spider_conf (t_spider s))"
    using lp.grant_below_limit [OF assms(2), of "clock_ms env" site "mp_level_pool (t_spider s)"] by simp
  with crawl_step_running [OF assms(1,6), of site] assms(3-5) show ?thesis by simp
qed (use assms(1,4,5) in \<open>auto simp: arrive_Some split: prod.splits\<close>)

section \<open>What a step does to the items\<close>

text \<open>The URLs in flight between the queue and a thread, and the results that end the way of an item.\<close>

definition hand_url :: "crawl_point \<Rightarrow> string multiset" where
  "hand_url p = (case in_hand p of None \<Rightarrow> {#} | Some qi \<Rightarrow> {#sq_url qi#})"

definition flight :: "CSelectedQueue \<Rightarrow> crawl_point \<Rightarrow> string multiset" where
  "flight q p = image_mset sq_url (mset (m_queue q)) + hand_url p"

definition goes_on :: "crawl_result \<Rightarrow> bool" where
  "goes_on r \<longleftrightarrow> r \<in> {Null_page_error, Queue_empty, Delayed, Net_fail}"

lemma hand_url_simps [simp]:
  "hand_url At_head = {#}" "hand_url (Took qi) = {#sq_url qi#}" "hand_url (Located l) = {#sq_url (l_item l)#}"
  "hand_url (Granted l) = {#sq_url (l_item l)#}" "hand_url (Downloaded missing l r) = {#sq_url (l_item l)#}"
  "hand_url (Fetched l r) = {#sq_url (l_item l)#}" "hand_url (Recorded l r) = {#sq_url (l_item l)#}"
  "hand_url (Converted l c) = {#sq_url (l_item l)#}"
  by (simp_all add: hand_url_def)

lemma flight_pop:
  "sq_pop q = (Some qi, q') \<Longrightarrow> flight q p = add_mset (sq_url qi) (flight q' p)"
  by (auto simp: flight_def dest!: sq_pop_some)

lemma flight_push:
  "sq_inv q \<Longrightarrow> int (length (m_queue q)) < m_size q \<Longrightarrow>
   flight (snd (sq_push qi q)) p = add_mset (sq_url qi) (flight q p)"
  by (simp add: flight_def sq_push_room)

lemma sq_url_dns_counted [simp]: "sq_url (dns_counted b qi) = sq_url qi"
  by (simp add: dns_counted_def)

lemma crawl_step_flight:
  assumes "crawl_step env p s = Some ((x, p'), s')" "sq_inv (mp_selected_queue (t_spider s))"
    and "int (length (m_queue (mp_selected_queue (t_spider s)))) < m_size (mp_selected_queue (t_spider s))"
  shows "(case x of
       None \<Rightarrow> flight (mp_selected_queue (t_spider s)) p \<subseteq># flight (mp_selected_queue (t_spider s')) p'
     | Some r \<Rightarrow> if goes_on r then flight (mp_selected_queue (t_spider s')) p' = flight (mp_selected_queue (t_spider s)) p
         else \<exists>u. flight (mp_selected_queue (t_spider s)) p = add_mset u (flight (mp_selected_queue (t_spider s')) p'))"
proof (cases p)
  case At_head
  with assms(1) show ?thesis
    by (auto simp: arrive_Some goes_on_def flight_pop dest!: take_item_effect) (simp_all add: flight_def)
next
  case (Took qi)
  with assms(1) show ?thesis
    by (auto simp: arrive_Some goes_on_def Let_def flight_push [OF assms(2,3)] dest!: resolve_effect)
      (simp_all add: flight_def)
next
  case (Located l)
  with assms(1) show ?thesis
    by (auto simp: arrive_Some goes_on_def flight_push [OF assms(2,3)] dest!: ask_slot_effect) (simp_all add: flight_def)
next
  case (Granted l)
  with assms(1) show ?thesis
    by (auto simp: arrive_Some same_core_def dest!: download_effect) (simp_all add: flight_def)
next
  case (Downloaded missing l r)
  with assms(1) show ?thesis
    by (auto simp: arrive_Some goes_on_def flight_push [OF assms(2,3)] dest!: give_back_effect) (simp_all add: flight_def)
qed (use assms(1) in \<open>auto simp: arrive_Some goes_on_def same_core_def flight_def dest!: record_crawl_core convert_page_core store_page_core\<close>)

text \<open>Counts: \<open>f\<close> and \<open>d\<close> bound the configured maxima.\<close>

definition counts_within :: "int \<Rightarrow> int \<Rightarrow> SSQItem \<Rightarrow> bool" where
  "counts_within f d qi \<longleftrightarrow> fail_count qi \<le> f \<and> dns_count qi \<le> d"

definition hand_within :: "int \<Rightarrow> int \<Rightarrow> crawl_point \<Rightarrow> bool" where
  "hand_within f d p \<longleftrightarrow>
     (\<forall>qi. in_hand p = Some qi \<longrightarrow> counts_within f (case p of Took _ \<Rightarrow> d | _ \<Rightarrow> d + 1) qi)"

lemma crawl_step_counts:
  assumes "crawl_step env p s = Some ((x, p'), s')"
    and "max_url_fail_count (m_spider_conf (t_spider s)) \<le> f" "max_dns_query_count (m_spider_conf (t_spider s)) \<le> d"
    and "queue_all (counts_within (f + 1) (d + 1)) s" "hand_within f d p"
  shows "queue_all (counts_within (f + 1) (d + 1)) s' \<and> hand_within f d p'"
proof -
  let ?P = "counts_within (f + 1) (d + 1)"
  show ?thesis
  proof (cases p)
    case At_head
    have "queue_all ?P s'" using assms(1,4) by (auto simp: At_head arrive_Some intro: take_item_all)
    with At_head assms(1-3) show ?thesis
      by (auto simp: arrive_Some hand_within_def counts_within_def dest!: take_item_effect)
  next
    case (Took qi)
    then have c: "counts_within f (d + 1) i \<and> ?P i" if "dns_counted b qi = i" for b i
      using assms(5) that by (auto simp: hand_within_def counts_within_def dns_counted_def)
    from Took assms(1,4) show ?thesis
      by (auto simp: arrive_Some Let_def hand_within_def c dest!: resolve_effect dest: c [OF sym] c intro!: items_all_push)
  next
    case (Located l)
    with assms(1,4,5) show ?thesis
      by (auto simp: arrive_Some hand_within_def counts_within_def intro!: items_all_push dest!: ask_slot_effect)
  next
    case (Downloaded missing l r)
    with assms(1,4,5) show ?thesis
      by (auto simp: arrive_Some hand_within_def counts_within_def intro!: items_all_push dest!: give_back_effect)
  qed (use assms(1,4,5) in \<open>auto simp: arrive_Some hand_within_def same_core_def
      dest!: download_effect record_crawl_core convert_page_core store_page_core\<close>)
qed

section \<open>What a step keeps\<close>

lemma write_to_queue_statis: "m_statis (write_to_queue uc ty norm which links sp) = m_statis sp"
  unfolding write_to_queue_def
  by (induction links arbitrary: sp)
    (simp_all add: write_link_def push_item_link_def push_cate_link_def Let_def split: option.split)

lemma end_with_error_statis:
  "end_with_error env r url err s = Some (x, s') \<Longrightarrow> m_statis (t_spider s') = m_statis (t_spider s)"
  by (auto simp: end_with_error_def)

lemma crawl_step_domains:
  assumes "crawl_step env p s = Some ((x, p'), s')"
  shows "m_domain (m_statis (t_spider s')) = m_domain (m_statis (t_spider s))"
proof (cases p)
  case At_head
  with assms show ?thesis
    by (auto simp: arrive_Some take_item_def Let_def split: option.splits prod.splits if_splits dest!: end_with_error_statis)
next
  case (Took qi)
  with assms show ?thesis
    by (auto simp: arrive_Some resolve_def Let_def requeue_def split: option.splits prod.splits if_splits
        dest!: end_with_error_statis)
next
  case (Located l)
  with assms show ?thesis by (auto simp: arrive_Some ask_slot_def requeue_def split: prod.splits bool.splits)
next
  case (Granted l)
  with assms show ?thesis by (auto simp: arrive_Some download_def Let_def split: option.splits if_splits)
next
  case (Downloaded missing l r)
  with assms show ?thesis
    by (auto simp: arrive_Some give_back_def Let_def requeue_def finish_def split: if_splits dest!: end_with_error_statis)
next
  case (Fetched l r)
  with assms show ?thesis by (auto simp: arrive_Some record_crawl_def Let_def spider_defs split: if_splits)
next
  case (Recorded l r)
  with assms show ?thesis by (auto simp: arrive_Some dest!: convert_page_core)
next
  case (Converted l c)
  with assms show ?thesis
    by (auto simp: arrive_Some store_page_def Let_def write_to_queue_statis split: option.splits if_splits)
qed

lemma crawl_step_sq_inv:
  assumes "crawl_step env p s = Some ((x, p'), s')" "sq_inv (mp_selected_queue (t_spider s))"
  shows "sq_inv (mp_selected_queue (t_spider s'))"
proof -
  have push: "sq_inv (snd (sq_push qi (mp_selected_queue (t_spider s))))" for qi by (rule sq.push_ok [OF assms(2)])
  show ?thesis
    by (cases p)
      (use assms push in \<open>auto simp: arrive_Some same_core_def Let_def dest!: step_effects core_effects sq_pop_some
        split: if_splits\<close>)
qed

text \<open>What every step keeps, the turn keeps.\<close>

lemma turn_steps_keep_inv:
  assumes "\<And>p s x p' s'. crawl_step env p s = Some ((x, p'), s') \<Longrightarrow> I s \<Longrightarrow> I s'"
  shows "turn_steps env n p s = Some (r, s') \<Longrightarrow> I s \<Longrightarrow> I s'"
proof (induction n arbitrary: p s)
  case (Suc n)
  then obtain x p1 s1 where st: "crawl_step env p s = Some ((x, p1), s1)"
    by (auto simp: turn_steps.simps(2) split: option.splits)
  from assms [OF st Suc.prems(2)] have "I s1" .
  with Suc st show ?case by (cases x) (auto simp: turn_steps.simps(2))
qed simp

lemma crawl_turn_steps: "crawl_turn env s = turn_steps env (Suc 7) At_head s"
proof -
  have "turn_steps env (Suc 7) At_head s = crawl_turn env s"
    unfolding crawl_turn_end
    by (rule turn_steps_stage [OF crawl_step.simps(1)])
      (simp add: eval_nat_numeral turn_steps_locate)
  then show ?thesis by simp
qed

lemmas crawl_turn_keep_inv = turn_steps_keep_inv [of _ _ "Suc 7" At_head, folded crawl_turn_steps]

section \<open>Properties\<close>

text \<open>The program points and the turn agree: the steps of the loop, run one after the other from its head,
  are the turn, in every result, in every effect, and where a turn is undefined.\<close>

lemma turn_is_uninterrupted_run: "turn_steps env 8 At_head s = crawl_turn env s"
  using crawl_turn_steps [of env s] by simp

end
