(* ===== verification/Spider_Main.thy ===== *)
theory Spider_Main
  imports Spider_Select Crawl_Steps
begin

text \<open>
  The life of the spider (spider.cpp, spider_main.cpp): \<open>start\<close> builds the components and the
  threads, one turn of \<open>select_thread\<close> is a round, and \<open>next_round\<close> with \<open>transfer\<close> ends a samsara
  by moving the output of the spider to its input. What \<open>system\<close> answers to a command and what the
  command does to the world is a parameter; \<open>shell_ok\<close> says what is documented of it.
\<close>

section \<open>transfer\<close>

definition OUTPUT_PATH :: string where "OUTPUT_PATH = ''next''"
definition BACKUP_PATH :: string where "BACKUP_PATH = ''backup''"
definition ITEM_LIST :: string where "ITEM_LIST = ''item.list''"
definition FAIL_LIST :: string where "FAIL_LIST = ''fail.list''"

text \<open>\<open>sys cmd w\<close> is what \<open>system\<close> returns for the command in the world \<open>w\<close>, and the world behind it: -1 when
  it could not be run, its exit status otherwise. The result is the return value (\<open>true\<close> is 1), the
  world, and whether \<open>SIGCHLD\<close> is ignored again at the end. A removal that could not be run is only
  logged.\<close>

definition transfer :: "(string \<Rightarrow> 'w \<Rightarrow> int \<times> 'w) \<Rightarrow> CSpiderConf \<Rightarrow> 'w \<Rightarrow> int \<times> 'w \<times> bool" where
  "transfer sys conf w =
     (let saver = url_output_dir conf @ ''/'' @ OUTPUT_PATH;
          reader = url_output_dir conf @ ''/'' @ INPUT_PATH;
          backup = url_output_dir conf @ ''/'' @ BACKUP_PATH;
          (rc1, w1) = sys (''rm -rf '' @ backup) w;
          (rc2, w2) = sys (''mv -f '' @ reader @ '' '' @ backup) w1
      in if rc2 = - 1 then (- 1, w2, False)
         else (let (rc3, w3) = sys (''mv -f '' @ saver @ '' '' @ reader) w2
               in if rc3 = - 1 then (- 1, w3, False)
                  else (let (rc4, w4) = sys (''mkdir -p '' @ saver) w3
                        in if rc4 = - 1 then (- 1, w4, False) else (1, w4, True))))"

section \<open>next_round\<close>

text \<open>What the environment answers, in the order of the calls.\<close>

record samsara_env =
  n_now :: string
  n_system :: "string \<Rightarrow> disk \<Rightarrow> int \<times> disk"
  n_opened :: "bool \<times> bool \<times> bool"
  n_mutex :: "int \<times> int \<times> int"

text \<open>The last result are the files opened for the category, the item and the fail list; \<open>None\<close> is the
  message written to a NULL file.\<close>

definition next_round :: "samsara_env \<Rightarrow> disk \<Rightarrow> CSpider
    \<Rightarrow> (int \<times> CSpider \<times> disk \<times> (string \<times> string \<times> string) option) option" where
  "next_round env d sp =
     (case write_message_to_file (n_now env) ''next samsara'' (m_statis sp) of None \<Rightarrow> None
      | Some (_, st) \<Rightarrow>
          (let sp1 = sp\<lparr>m_statis := st, mp_cate_output := snd (out_destroy 0 (mp_cate_output sp)),
                 mp_item_output := snd (out_destroy 0 (mp_item_output sp)),
                 mp_fail_output := snd (out_destroy 0 (mp_fail_output sp))\<rparr>;
               (rc, d1, _) = transfer (n_system env) (m_spider_conf sp) d;
               path = url_output_dir (m_spider_conf sp) @ ''/'' @ OUTPUT_PATH @ ''/'';
               (oc, oi, ofl) = n_opened env; (mc, mi, mf) = n_mutex env
           in if rc < 0 then Some (- 1, sp1, d1, None)
              else Some (0, sp1\<lparr>mp_cate_output := snd (out_init oc mc (mp_cate_output sp1)),
                     mp_item_output := snd (out_init oi mi (mp_item_output sp1)),
                     mp_fail_output := snd (out_init ofl mf (mp_fail_output sp1))\<rparr>, d1,
                   Some (path @ ITEM_LIST, path @ CATE_LIST, path @ FAIL_LIST))))"

section \<open>start\<close>

record start_env =
  s_now :: string
  s_statis_opened :: bool
  s_opened :: "bool \<times> bool \<times> bool"
  s_mutex :: "int \<times> int \<times> int"
  s_page_mutex :: int
  s_queue_mutex :: int
  s_level_rc :: int
  s_select_thread :: int
  s_work_thread :: "int \<Rightarrow> int"

text \<open>The initialisations in order: the return value and the spider; the paths opened as in \<open>next_round\<close>.\<close>

definition list_paths :: "CSpiderConf \<Rightarrow> string \<times> string \<times> string" where
  "list_paths conf = (let path = url_output_dir conf @ ''/'' @ OUTPUT_PATH @ ''/''
     in (path @ CATE_LIST, path @ ITEM_LIST, path @ FAIL_LIST))"

definition start_lists :: "start_env \<Rightarrow> CSpider \<Rightarrow> int \<times> CSpider" where
  "start_lists env sp =
     (let (oc, oi, ofl) = s_opened env; (mc, mi, mf) = s_mutex env;
          (r1, o1) = out_init oc mc out_new; sp1 = sp\<lparr>mp_cate_output := o1\<rparr>;
          (r2, o2) = out_init oi mi out_new; sp2 = sp1\<lparr>mp_item_output := o2\<rparr>;
          (r3, o3) = out_init ofl mf out_new; sp3 = sp2\<lparr>mp_fail_output := o3\<rparr>
      in if r1 \<noteq> 0 then (- 1, sp1) else if r2 \<noteq> 0 then (- 1, sp2) else if r3 \<noteq> 0 then (- 1, sp3) else (0, sp3))"

definition start_pools :: "start_env \<Rightarrow> CSpider \<Rightarrow> int \<times> CSpider" where
  "start_pools env sp =
     (let conf = m_spider_conf sp;
          (r1, po) = page_init (s_page_mutex env) (mp_page_output sp); sp1 = sp\<lparr>mp_page_output := po\<rparr>;
          (r2, q) = sq_init (s_queue_mutex env) (selected_queue_size conf) sq_new; sp2 = sp1\<lparr>mp_selected_queue := q\<rparr>;
          (r3, m) = dns_init (m_dns_client sp); sp3 = sp2\<lparr>m_dns_client := m\<rparr>;
          sp4 = sp3\<lparr>mp_cpq := pool_new, mp_coq := pool_new, mp_ipq := pool_new, mp_ioq := pool_new,
                    mp_level_pool := Map.empty\<rparr>
      in if r1 \<noteq> 0 then (- 1, sp1) else if r2 \<noteq> 0 then (- 1, sp2) else if r3 \<noteq> 0 then (- 1, sp3)
         else if s_level_rc env \<noteq> 0 then (- 1, sp4)
         else (0, sp4\<lparr>m_conf_change_time := - 1, m_stop_domain_conf_change_time := - 1,
                      m_seed_change_time := - 1, m_select_rounds := 0\<rparr>))"

definition start_init :: "start_env \<Rightarrow> CSpider \<Rightarrow> (int \<times> CSpider) option" where
  "start_init env sp =
     (let (r0, st) = statis_init (Some (s_statis_opened env)) (m_statis sp)
      in if r0 = - 1 then Some (- 1, sp\<lparr>m_statis := st\<rparr>)
         else (case write_message_to_file (s_now env) ''start spider!'' st of None \<Rightarrow> None
               | Some (_, st1) \<Rightarrow>
                   (case start_lists env (sp\<lparr>m_statis := st1\<rparr>) of (r1, sp1) \<Rightarrow>
                      Some (if r1 \<noteq> 0 then (- 1, sp1) else start_pools env sp1))))"

text \<open>The number of crawling threads created: up to the first that fails.\<close>

fun create_workers :: "(int \<Rightarrow> int) \<Rightarrow> int \<Rightarrow> nat \<Rightarrow> bool \<times> int" where
  "create_workers rc i 0 = (True, i)"
| "create_workers rc i (Suc n) = (if rc i \<noteq> 0 then (False, i) else create_workers rc (i + 1) n)"

text \<open>The return value, which the threads must end first for, the spider as the threads find it, and how
  many selecting and crawling threads were created.\<close>

definition start :: "start_env \<Rightarrow> CSpider \<Rightarrow> (int \<times> CSpider \<times> int \<times> int) option" where
  "start env sp =
     (case start_init env sp of None \<Rightarrow> None
      | Some (rc, sp1) \<Rightarrow>
          if rc \<noteq> 0 then Some (- 1, sp1, 0, 0)
          else if s_select_thread env \<noteq> 0 then Some (- 1, sp1, 0, 0)
          else (case create_workers (s_work_thread env) 0 (nat (work_thread_num (m_spider_conf sp1))) of
                  (True, n) \<Rightarrow> Some (0, sp1, 1, n) | (False, n) \<Rightarrow> Some (- 1, sp1, 1, n)))"

section \<open>main\<close>

text \<open>\<open>args\<close> is \<open>argc\<close>; the value is the exit status before it is cut to a byte.\<close>

definition spider_main :: "conf_reader \<Rightarrow> start_env \<Rightarrow> int \<Rightarrow> nat \<Rightarrow> string \<Rightarrow> CSpider \<Rightarrow> int option" where
  "spider_main conf_file env setrlimit_rc args path sp =
     (if args < 2 then Some 0
      else (case reload_conf conf_file path sp of (rc, sp1) \<Rightarrow>
              if rc = - 1 then Some (- 1)
              else if setrlimit_rc < 0 then Some (- 1)
              else (case start env sp1 of None \<Rightarrow> None
                    | Some (rc, _) \<Rightarrow> Some (if rc = 0 then - 1 else 0))))"

section \<open>A round of the selecting thread\<close>

text \<open>Before its loop the selecting thread loads the URL list; false is \<open>exit(-1)\<close>.\<close>

definition select_start :: "url_parser \<Rightarrow> int \<Rightarrow> stack \<Rightarrow> disk \<Rightarrow> CSpider \<Rightarrow> (bool \<times> CSpider) option" where
  "select_start uc junk stk d sp =
     map_option (\<lambda>(rc, sp'). (0 \<le> rc, sp'))
       (load_input_urls uc junk stk d (url_input_dir (m_spider_conf sp)) sp)"

text \<open>\<open>r_elapsed\<close> are the seconds since the round began when it is time to sleep.\<close>

record round_env =
  r_conf :: conf_reader
  r_parse :: url_parser
  r_junk :: int
  r_stacks :: "stack \<times> stack"
  r_input_stack :: stack
  r_now :: string
  r_shuffle :: "UrlInfo list \<Rightarrow> UrlInfo list"
  r_drains :: bool
  r_samsara :: samsara_env
  r_dns :: "string \<Rightarrow> (int \<Rightarrow> dns_env) \<times> string"
  r_busy :: "nat \<Rightarrow> CSelectedQueue \<Rightarrow> CSelectedQueue"
  r_elapsed :: int

datatype round_end = Exit | New_samsara | Slept int

definition new_samsara :: "round_env \<Rightarrow> disk \<Rightarrow> CSpider \<Rightarrow> (round_end \<times> CSpider \<times> disk) option" where
  "new_samsara env d sp =
     (case next_round (r_samsara env) d sp of None \<Rightarrow> None
      | Some (rc, sp1, d1, _) \<Rightarrow>
          if rc < 0 then Some (Exit, sp1, d1)
          else (case load_input_urls (r_parse env) (r_junk env) (r_input_stack env) d1
                       (url_output_dir (m_spider_conf sp1)) sp1 of None \<Rightarrow> None
                | Some (rc2, sp2) \<Rightarrow> Some (if rc2 < 0 then Exit else New_samsara, sp2, d1)))"

definition select_round :: "round_env \<Rightarrow> disk \<Rightarrow> CSpider \<Rightarrow> (round_end \<times> CSpider \<times> disk) option" where
  "select_round env d sp =
     (case update_conf (r_conf env) (r_parse env) (r_junk env) (r_stacks env) d
             (sp\<lparr>m_select_rounds := m_select_rounds sp + 1\<rparr>) of None \<Rightarrow> None
      | Some (rc1, sp1, d1) \<Rightarrow>
          if rc1 < 0 then Some (Exit, sp1, d1)
          else (case select_url (r_now env) (r_shuffle env) (r_drains env) sp1 of None \<Rightarrow> None
                | Some (rc2, sp2) \<Rightarrow>
                    if rc2 < 0 then new_samsara env d1 sp2
                    else (case insert_url (r_dns env) (r_busy env) sp2 of None \<Rightarrow> None
                          | Some (_, sp3) \<Rightarrow>
                              Some (Slept (max 0 (min_select_interval (m_spider_conf sp3) - r_elapsed env)), sp3, d1))))"

section \<open>The invariant of the running spider\<close>

text \<open>What no operation of the selecting thread breaks: the selected queue is consistent and its items are
  as \<open>Q\<close> says, the domains are in key order, each once, and the level pool is left alone.\<close>

definition shared_inv :: "level_map \<Rightarrow> (SSQItem \<Rightarrow> bool) \<Rightarrow> CSpider \<Rightarrow> bool" where
  "shared_inv lp Q sp \<longleftrightarrow> sq_inv (mp_selected_queue sp) \<and> items_all Q (mp_selected_queue sp) \<and>
     sm_inv (m_domain (m_statis sp)) \<and> mp_level_pool sp = lp"

text \<open>Between two turns of the crawling threads no slot of the level pool is taken.\<close>

definition spider_inv :: "CSpider \<Rightarrow> bool" where
  "spider_inv sp \<longleftrightarrow> sq_inv (mp_selected_queue sp) \<and> sm_inv (m_domain (m_statis sp)) \<and>
     (\<forall>site. running (mp_level_pool sp) site = 0)"

lemma spider_inv_shared:
  "spider_inv sp \<longleftrightarrow> (\<exists>lp. shared_inv lp (\<lambda>_. True) sp \<and> (\<forall>site. running lp site = 0))"
  by (auto simp: spider_inv_def shared_inv_def items_all_def)

lemma shared_inv_update:
  "mp_selected_queue sp' = mp_selected_queue sp \<Longrightarrow> m_domain (m_statis sp') = m_domain (m_statis sp) \<Longrightarrow>
   mp_level_pool sp' = mp_level_pool sp \<Longrightarrow> shared_inv lp Q sp \<Longrightarrow> shared_inv lp Q sp'"
  by (simp add: shared_inv_def)

lemma sm_inv_seed_domains:
  "sm_inv m \<Longrightarrow> sm_inv (fold (\<lambda>parts. seed_domain (snd (snd parts))) bs m)"
  by (induction bs arbitrary: m) (auto simp: seed_domain_def split: option.splits)

lemma sm_inv_new_domains:
  "sm_inv (m_domain s) \<Longrightarrow> sm_inv (m_domain (fold (\<lambda>parts. new_domain (snd (snd parts))) bs s))"
proof (induction bs arbitrary: s)
  case (Cons b bs)
  have "sm_inv (m_domain (new_domain (snd (snd b)) s))"
    using Cons.prems by (auto simp: new_domain_def spider_defs split: option.split)
  with Cons.IH show ?case by simp
qed simp

lemma reload_conf_keeps:
  "reload_conf conf_file path sp = (rc, sp') \<Longrightarrow> shared_inv lp Q sp \<Longrightarrow> shared_inv lp Q sp'"
  by (auto simp: reload_conf_def shared_inv_def split: prod.splits)

lemma update_main_keeps: "update_main conf_file d sp = (b, sp') \<Longrightarrow> shared_inv lp Q sp \<Longrightarrow> shared_inv lp Q sp'"
  by (auto simp: update_main_def Let_def reload_conf_def shared_inv_def split: prod.splits if_splits)

lemma load_stop_domain_keeps:
  assumes "load_stop_domain stk d path sp = Some (rc, sp')" "shared_inv lp Q sp"
  shows "shared_inv lp Q sp'"
proof -
  have "sm_inv (fold stop_line ps (unshield (m_domain (m_statis sp))))" for ps
    using assms(2) by (intro sm_inv_stop_lines sm_inv_unshield) (simp add: shared_inv_def)
  then show ?thesis
    using assms by (auto simp: load_stop_domain_def with_domains_def shared_inv_def split: option.splits)
qed

lemma load_seed_keeps:
  assumes "load_seed uc junk stk d path sp = Some (rc, sp', d')" "shared_inv lp Q sp"
  shows "shared_inv lp Q sp'"
proof -
  have "sm_inv (fold (\<lambda>parts. seed_domain (snd (snd parts))) bs (m_domain (m_statis sp)))" for bs
    using assms(2) by (intro sm_inv_seed_domains) (simp add: shared_inv_def)
  then show ?thesis
    using assms by (auto simp: load_seed_def Let_def fold_seed_line with_domains_def shared_inv_def
        split: option.splits if_splits)
qed

lemma update_stop_keeps:
  assumes "update_stop stk d sp = Some (b, sp')" "shared_inv lp Q sp"
  shows "shared_inv lp Q sp'"
proof -
  have "shared_inv lp Q (sp1\<lparr>m_stop_domain_conf_change_time := t\<rparr>) = shared_inv lp Q sp1" for sp1 t
    by (simp add: shared_inv_def)
  then show ?thesis
    using assms load_stop_domain_keeps
    by (fastforce simp: update_stop_def Let_def split: if_splits)
qed

lemma update_seed_keeps:
  assumes "update_seed uc junk stk d sp = Some (rc, sp', d')" "shared_inv lp Q sp"
  shows "shared_inv lp Q sp'"
proof -
  have "shared_inv lp Q (sp1\<lparr>m_seed_change_time := t\<rparr>) = shared_inv lp Q sp1" for sp1 t
    by (simp add: shared_inv_def)
  then show ?thesis
    using assms load_seed_keeps
    by (fastforce simp: update_seed_def Let_def split: if_splits)
qed

lemma update_conf_keeps:
  assumes "update_conf conf_file uc junk stacks d sp = Some (rc, sp', d')" "shared_inv lp Q sp"
  shows "shared_inv lp Q sp'"
  using assms
  by (auto simp: update_conf_def split: prod.splits bool.splits option.splits
      dest: update_main_keeps update_stop_keeps update_seed_keeps)

lemma load_input_urls_keeps:
  assumes "load_input_urls uc junk stk d path sp = Some (rc, sp')" "shared_inv lp Q sp"
  shows "shared_inv lp Q sp'"
  using assms
  by (auto simp: load_input_urls_def Let_def forget_urls_def with_domains_def fold_cate_line shared_inv_def
      intro!: sm_inv_new_domains split: option.splits)

lemma next_round_keeps:
  "next_round env d sp = Some (rc, sp', d', paths) \<Longrightarrow> shared_inv lp Q sp \<Longrightarrow> shared_inv lp Q sp'"
  by (auto simp: next_round_def Let_def write_message_to_file_def shared_inv_def split: option.splits prod.splits if_splits)

lemma picking_domain:
  "m_domain (p_statis (fold (pick_prio share num k sm) ds st)) = m_domain (p_statis st)"
  "m_domain (p_statis (fold (pick_ord share num k sm) ds st)) = m_domain (p_statis st)"
proof -
  have "m_domain (p_statis (pick_domain ct it slots qc qi d us st)) = m_domain (p_statis st)"
    for ct it slots qc qi d us and st :: picking
    by (simp add: pick_domain_def Let_def spider_defs split: prod.split)
  then show "m_domain (p_statis (fold (pick_prio share num k sm) ds st)) = m_domain (p_statis st)"
    "m_domain (p_statis (fold (pick_ord share num k sm) ds st)) = m_domain (p_statis st)"
    by (induction ds arbitrary: st) (simp_all add: pick_prio_def pick_ord_def Let_def split: prod.split)
qed

lemma select_url_keeps:
  assumes "select_url now shuffle drains sp = Some (rc, sp')" "shared_inv lp Q sp"
  shows "shared_inv lp Q sp'"
proof -
  have pick: "m_domain (m_statis (select_pick sp)) = m_domain (m_statis sp)"
    by (simp add: select_pick_def Let_def picking_domain drain_pools_def record_sizes_def)
  obtain st where st: "set_statis_to_file now (m_statis (select_pick sp)) = Some st"
    using assms(1) by (auto simp: select_url_def Let_def split: option.splits)
  have dm: "m_domain st = m_domain (m_statis sp)"
    using st pick by (auto simp: set_statis_to_file_def report_all_counts split: option.splits)
  have "m_statis sp' = st" "mp_selected_queue sp' \<in> {mp_selected_queue sp, sq_clear (mp_selected_queue sp)}"
    using assms(1) st by (auto simp: select_url_def Let_def select_pick_frame split: if_splits)
  moreover have "mp_level_pool sp' = mp_level_pool sp"
    using assms(1) st by (auto simp: select_url_def Let_def select_pick_def drain_pools_def record_sizes_def split: if_splits)
  ultimately show ?thesis
    using dm assms(2) sq.clear_law [of "mp_selected_queue sp"] by (auto simp: shared_inv_def items_all_def)
qed

lemma insert_url_keeps:
  assumes "insert_url env busy sp = Some (rc, sp')" "shared_inv lp Q sp" "only_pops busy"
    and "\<And>u. Q (sq_item u)"
  shows "shared_inv lp Q sp'"
proof -
  have "m_statis (fold put_back_o us s) = m_statis s" "m_statis (fold put_back_p us s) = m_statis s"
    "mp_level_pool (fold put_back_o us s) = mp_level_pool s" "mp_level_pool (fold put_back_p us s) = mp_level_pool s" for us s
    by (induction us arbitrary: s) (simp_all add: put_back_o_def put_back_p_def)
  moreover have "items_all Q q" if "m_queue q = drop k (m_queue (mp_selected_queue sp) @ map sq_item us)" for q k us
    using assms(2,4) unfolding items_all_def that by (auto simp: shared_inv_def items_all_def dest!: in_set_dropD)
  moreover have "sq_inv (mp_selected_queue sp)" using assms(2) by (simp add: shared_inv_def)
  ultimately show ?thesis
    using push_selected_order [OF assms(3), of "mp_selected_queue sp"] assms(2)
    by (rule_tac insert_url_cases [OF assms(1)]) (fastforce simp: shared_inv_def simp del: drop_append)
qed

lemma select_round_keeps:
  assumes "select_round env d sp = Some (e, sp', d')" "shared_inv lp Q sp" "only_pops (r_busy env)"
    and "\<And>u. Q (sq_item u)"
  shows "shared_inv lp Q sp'"
proof -
  have start: "shared_inv lp Q (sp\<lparr>m_select_rounds := m_select_rounds sp + 1\<rparr>)"
    using assms(2) by (simp add: shared_inv_def)
  have samsara: "shared_inv lp Q sp2" if run: "new_samsara env d1 sp1 = Some (e1, sp2, d2)" and inv: "shared_inv lp Q sp1"
    for d1 sp1 e1 sp2 d2
  proof -
    obtain rc sp3 d3 paths where n: "next_round (r_samsara env) d1 sp1 = Some (rc, sp3, d3, paths)"
      using run by (auto simp: new_samsara_def split: option.splits)
    have sp3: "shared_inv lp Q sp3" by (rule next_round_keeps [OF n inv])
    show ?thesis
      using run n sp3 load_input_urls_keeps [OF _ sp3]
      by (auto simp: new_samsara_def Let_def split: option.splits if_splits)
  qed
  obtain rc1 sp1 d1 where u: "update_conf (r_conf env) (r_parse env) (r_junk env) (r_stacks env) d
      (sp\<lparr>m_select_rounds := m_select_rounds sp + 1\<rparr>) = Some (rc1, sp1, d1)"
    using assms(1) by (auto simp: select_round_def split: option.splits)
  have sp1: "shared_inv lp Q sp1" by (rule update_conf_keeps [OF u start])
  show ?thesis
  proof (cases "rc1 < 0")
    case True
    with assms(1) u sp1 show ?thesis by (simp add: select_round_def)
  next
    case False
    obtain rc2 sp2 where s: "select_url (r_now env) (r_shuffle env) (r_drains env) sp1 = Some (rc2, sp2)"
      using assms(1) u False by (auto simp: select_round_def split: option.splits)
    have sp2: "shared_inv lp Q sp2" by (rule select_url_keeps [OF s sp1])
    show ?thesis
      using assms(1) u False s samsara [OF _ sp2] insert_url_keeps [OF _ sp2 assms(3,4)]
      by (auto simp: select_round_def split: option.splits if_splits)
  qed
qed

lemma crawl_turn_domains:
  assumes "crawl_turn env s = Some (r, s')"
  shows "m_domain (m_statis (t_spider s')) = m_domain (m_statis (t_spider s))"
  by (rule crawl_turn_keep_inv [OF _ assms, where I = "\<lambda>s1. m_domain (m_statis (t_spider s1)) = m_domain (m_statis (t_spider s))"])
    (simp_all add: crawl_step_domains)

lemma crawl_turn_sq_inv:
  "crawl_turn env s = Some (r, s') \<Longrightarrow> sq_inv (mp_selected_queue (t_spider s)) \<Longrightarrow> sq_inv (mp_selected_queue (t_spider s'))"
  by (rule crawl_turn_keep_inv [where I = "\<lambda>s1. sq_inv (mp_selected_queue (t_spider s1))"]) (auto intro: crawl_step_sq_inv)

lemma crawl_turn_keeps:
  assumes "crawl_turn env s = Some (r, s')" "spider_inv (t_spider s)"
  shows "spider_inv (t_spider s')"
  using assms(2) crawl_turn_domains [OF assms(1)] crawl_turn_sq_inv [OF assms(1)]
    crawl_turn_running [OF assms(1)]
  by (simp add: spider_inv_def)

section \<open>Properties\<close>

text \<open>The documented behaviour of the three commands, as far as \<open>transfer\<close> relies on it. \<open>dirs\<close> reads from a world
  the contents of its directories. For paths without characters that the shell or the commands take
  for something else, exit status 0 means: \<open>rm -rf\<close> has removed, \<open>mv\<close> has moved an existing directory to a
  name that is free, and \<open>mkdir -p\<close> has made an empty directory where there was none; nothing else has
  changed. Of the other answers nothing is assumed.\<close>

definition plain_path :: "string \<Rightarrow> bool" where
  "plain_path p \<longleftrightarrow> p \<noteq> [] \<and> hd p = CHR ''/'' \<and> list_all (\<lambda>c. c \<in> set ''abcdefghijklmnopqrstuvwxyz0123456789_./'') p"

definition shell_ok :: "(string \<Rightarrow> 'w \<Rightarrow> int \<times> 'w) \<Rightarrow> ('w \<Rightarrow> string \<rightharpoonup> 'd) \<Rightarrow> 'd \<Rightarrow> bool" where
  "shell_ok sys dirs new \<longleftrightarrow>
     (\<forall>p w w'. plain_path p \<longrightarrow> sys (''rm -rf '' @ p) w = (0, w') \<longrightarrow> dirs w' = (dirs w)(p := None)) \<and>
     (\<forall>p q w w'. plain_path p \<longrightarrow> plain_path q \<longrightarrow> dirs w p \<noteq> None \<longrightarrow> dirs w q = None \<longrightarrow>
        sys (''mv -f '' @ p @ '' '' @ q) w = (0, w') \<longrightarrow> dirs w' = (dirs w)(p := None, q := dirs w p)) \<and>
     (\<forall>p w w'. plain_path p \<longrightarrow> dirs w p = None \<longrightarrow> sys (''mkdir -p '' @ p) w = (0, w') \<longrightarrow> dirs w' = (dirs w)(p \<mapsto> new))"

text \<open>The answers to commands given one after the other, and the world at the end.\<close>

fun sys_answers :: "(string \<Rightarrow> 'w \<Rightarrow> int \<times> 'w) \<Rightarrow> string list \<Rightarrow> 'w \<Rightarrow> int list \<times> 'w" where
  "sys_answers sys [] w = ([], w)"
| "sys_answers sys (c # cs) w = (let (rc, w1) = sys c w; (rcs, w2) = sys_answers sys cs w1 in (rc # rcs, w2))"


text \<open>A shell that knows the four commands for the directory \<open>/o\<close>, on worlds that are just the directories.\<close>

definition sample_shell :: "string \<Rightarrow> (string \<rightharpoonup> nat) \<Rightarrow> int \<times> (string \<rightharpoonup> nat)" where
  "sample_shell c fs =
     (if c = ''rm -rf /o/backup'' then (0, fs(''/o/backup'' := None))
      else if c = ''mv -f /o/input /o/backup'' then (0, fs(''/o/input'' := None, ''/o/backup'' := fs ''/o/input''))
      else if c = ''mv -f /o/next /o/input'' then (0, fs(''/o/next'' := None, ''/o/input'' := fs ''/o/next''))
      else if c = ''mkdir -p /o/next'' then (0, fs(''/o/next'' \<mapsto> 0))
      else (256, fs))"

lemma two_paths:
  assumes "plain_path p" "p @ '' '' @ q = a @ '' '' @ b" "plain_path a"
  shows "p = a \<and> q = b"
proof -
  have t: "takeWhile (\<lambda>c. c \<noteq> SPACE) (x @ '' '' @ y) = x" if "plain_path x" for x y
    using that by (subst takeWhile_append2) (auto simp: plain_path_def list_all_iff)
  have "p = a" using t [OF assms(1), of q] t [OF assms(3), of b] unfolding assms(2) by simp
  with assms(2) show ?thesis by simp
qed

lemma sample_shell_ok: "shell_ok sample_shell id 0"
proof -
  have a: "plain_path ''/o/input''" "plain_path ''/o/next''" by (simp_all add: plain_path_def)
  have "(p = ''/o/input'' \<and> q = ''/o/backup'') \<or> (p = ''/o/next'' \<and> q = ''/o/input'')"
    if "plain_path p" "sample_shell (''mv -f '' @ p @ '' '' @ q) w = (0, w')" for p q and w w' :: "string \<rightharpoonup> nat"
    using that two_paths [OF that(1) _ a(1), of q "''/o/backup''"] two_paths [OF that(1) _ a(2), of q "''/o/input''"]
    by (auto simp: sample_shell_def split: if_splits)
  then have "id w' = (id w)(p := None, q := id w p)"
    if "plain_path p" "id w p \<noteq> None" "sample_shell (''mv -f '' @ p @ '' '' @ q) w = (0, w')" for p q and w w' :: "string \<rightharpoonup> nat"
    using that by (fastforce simp: sample_shell_def)
  then show ?thesis unfolding shell_ok_def by (auto simp: sample_shell_def split: if_splits)
qed


text \<open>Only -1, a command that could not be run, counts as a failure: when the commands run but fail, with an
  exit status other than 0, and leave the disk as it was, \<open>next_round\<close> returns 0 all the same and opens the
  three lists, in the output directory that has not been moved.\<close>

theorem failed_transfer_unnoticed:
  assumes "\<And>cmd. fst (n_system env cmd d) \<noteq> - 1" "\<And>cmd. snd (n_system env cmd d) = d"
    and "m_fp (m_statis sp) = Some text"
  shows "\<exists>sp'. next_round env d sp = Some (0, sp', d, Some (url_output_dir (m_spider_conf sp) @ ''/next/item.list'',
    url_output_dir (m_spider_conf sp) @ ''/next/cate.list'', url_output_dir (m_spider_conf sp) @ ''/next/fail.list''))"
proof -
  define rc where "rc cmd = fst (n_system env cmd d)" for cmd
  have "n_system env cmd d = (rc cmd, d)" "rc cmd \<noteq> - 1" for cmd
    using assms(1,2) by (simp_all add: rc_def prod_eq_iff)
  then have "transfer (n_system env) (m_spider_conf sp) d = (1, d, True)"
    by (simp add: transfer_def Let_def)
  then show ?thesis
    using assms(3)
    by (auto simp: next_round_def write_message_to_file_def Let_def OUTPUT_PATH_def ITEM_LIST_def CATE_LIST_def FAIL_LIST_def
        split: prod.split)
qed

lemma failed_transfer_unnoticed_witness:
  "\<exists>sp' paths. next_round \<lparr>n_now = [], n_system = \<lambda>_. Pair 256, n_opened = (True, True, True), n_mutex = (0, 0, 0)\<rparr>
     (sample_disk ''/input/cate.list'' [''http://a.b/'']) ((spider_new conf_zeroed)\<lparr>m_statis := statis_new\<lparr>m_fp := Some []\<rparr>\<rparr>) =
     Some (0, sp', sample_disk ''/input/cate.list'' [''http://a.b/''], Some paths)"
  using failed_transfer_unnoticed [of "\<lparr>n_now = [], n_system = \<lambda>_. Pair 256, n_opened = (True, True, True), n_mutex = (0, 0, 0)\<rparr>"
      "sample_disk ''/input/cate.list'' [''http://a.b/'']" "(spider_new conf_zeroed)\<lparr>m_statis := statis_new\<lparr>m_fp := Some []\<rparr>\<rparr>" "[]"]
  by auto

text \<open>From the second samsara on the category list and the item list are exchanged: \<open>next_round\<close> opens the
  category output on the file that \<open>start\<close> opens the item output on, and the other way round, while the
  list of failed URLs keeps its file.\<close>

theorem next_round_exchanges_lists:
  assumes "next_round env d sp = Some (rc, sp', d', Some (cate, item, failed))"
  shows "list_paths (m_spider_conf sp) = (item, cate, failed) \<and> cate \<noteq> item \<and>
    (rc = 0 \<and> out_fd (mp_cate_output sp') \<in> {None, Some []} \<and> out_fd (mp_item_output sp') \<in> {None, Some []})"
  using assms
  by (auto simp: next_round_def list_paths_def Let_def ITEM_LIST_def CATE_LIST_def FAIL_LIST_def out_init_def
      split: option.splits prod.splits if_splits)

lemma next_round_exchanges_lists_witness:
  "\<exists>sp' d' paths. next_round \<lparr>n_now = [], n_system = \<lambda>_. Pair 0, n_opened = (True, True, True), n_mutex = (0, 0, 0)\<rparr>
       (sample_disk [] []) ((spider_new conf_zeroed)\<lparr>m_statis := statis_new\<lparr>m_fp := Some []\<rparr>\<rparr>) = Some (0, sp', d', Some paths) \<and>
     fst paths = ''/next/item.list''"
proof -
  let ?env = "\<lparr>n_now = [], n_system = \<lambda>_. Pair 0, n_opened = (True, True, True), n_mutex = (0, 0, 0)\<rparr>"
  let ?sp = "(spider_new conf_zeroed)\<lparr>m_statis := statis_new\<lparr>m_fp := Some []\<rparr>\<rparr>"
  obtain sp' d' cate item failed where n: "next_round ?env (sample_disk [] []) ?sp = Some (0, sp', d', Some (cate, item, failed))"
    by (simp add: next_round_def write_message_to_file_def transfer_def Let_def)
  have "list_paths (m_spider_conf ?sp) = (item, cate, failed)"
    using next_round_exchanges_lists [OF n] by blast
  then have "cate = ''/next/item.list''"
    by (simp add: list_paths_def Let_def spider_new_def conf_zeroed_def OUTPUT_PATH_def ITEM_LIST_def)
  with n show ?thesis by auto
qed

lemma create_workers_all: "create_workers rc i n = (True, k) \<Longrightarrow> k = i + int n"
  by (induction rc i n rule: create_workers.induct) (auto split: if_splits)

text \<open>When \<open>start\<close> returns 0 the spider the threads share is fresh and complete: the three lists are open and
  empty, the selected queue is empty with the configured bound, the four pools, the DNS cache and the
  level pool are empty, no change time is remembered, so that the first round reads every file, and one
  selecting thread and the configured number of crawling threads have been created.\<close>

theorem start_success:
  assumes "start env sp = Some (0, sp', selecting, crawling)"
  shows "out_fd (mp_cate_output sp') = Some [] \<and> out_fd (mp_item_output sp') = Some [] \<and>
    out_fd (mp_fail_output sp') = Some [] \<and>
    m_queue (mp_selected_queue sp') = [] \<and> m_count (mp_selected_queue sp') = 0 \<and>
    m_size (mp_selected_queue sp') = selected_queue_size (m_spider_conf sp) \<and>
    mp_cpq sp' = pool_new \<and> mp_coq sp' = pool_new \<and> mp_ipq sp' = pool_new \<and> mp_ioq sp' = pool_new \<and>
    m_dns_client sp' = Map.empty \<and> mp_level_pool sp' = Map.empty \<and>
    m_conf_change_time sp' = - 1 \<and> m_stop_domain_conf_change_time sp' = - 1 \<and> m_seed_change_time sp' = - 1 \<and>
    m_select_rounds sp' = 0 \<and> selecting = 1 \<and> crawling = int (nat (work_thread_num (m_spider_conf sp)))"
  using assms
  by (auto simp: start_def start_init_def start_lists_def start_pools_def Let_def out_init_def sq_init_def sq_new_def
      dns_init_def page_init_def statis_init_def write_message_to_file_def
      dest!: create_workers_all split: option.splits prod.splits if_splits bool.splits)

definition sample_start :: start_env where
  "sample_start = \<lparr>s_now = [], s_statis_opened = True, s_opened = (True, True, True), s_mutex = (0, 0, 0),
     s_page_mutex = 0, s_queue_mutex = 0, s_level_rc = 0, s_select_thread = 0, s_work_thread = \<lambda>_. 0\<rparr>"

lemma sample_start_ok: "\<exists>sp'. start sample_start sp = Some (0, sp', 1, int (nat (work_thread_num (m_spider_conf sp))))"
proof -
  have c: "create_workers (\<lambda>_. 0) i n = (True, i + int n)" for i n
    by (induction "\<lambda>_ :: int. 0 :: int" i n rule: create_workers.induct) auto
  show ?thesis
    by (simp add: start_def start_init_def start_lists_def start_pools_def out_init_def sq_init_def dns_init_def
        page_init_def statis_init_def write_message_to_file_def sample_start_def Let_def c)
qed

lemma start_success_witness:
  "\<exists>sp'. start sample_start (spider_new (conf_zeroed\<lparr>work_thread_num := 2\<rparr>)) = Some (0, sp', 1, 2) \<and>
     mp_coq sp' = pool_new"
proof -
  obtain sp' where s: "start sample_start (spider_new (conf_zeroed\<lparr>work_thread_num := 2\<rparr>)) = Some (0, sp', 1, 2)"
    using sample_start_ok [of "spider_new (conf_zeroed\<lparr>work_thread_num := 2\<rparr>)"] by (auto simp: spider_new_def)
  from start_success [OF s] s show ?thesis by blast
qed

text \<open>The exit status is the wrong way round: \<open>main\<close> takes the 0 of a spider that started and ended well for
  an error, and ends with 0 when \<open>start\<close> failed.\<close>

theorem main_status_inverted:
  assumes "2 \<le> args" "reload_conf conf_file path sp = (0, sp1)" "0 \<le> setrlimit_rc" "start env sp1 = Some (rc, rest)"
  shows "spider_main conf_file env setrlimit_rc args path sp = Some (if rc = 0 then - 1 else 0)"
  using assms by (simp add: spider_main_def)

definition sample_conf_file :: conf_reader where
  "sample_conf_file path = (True, \<lambda>_. ''x'', \<lambda>_. 1)"

lemma sample_conf_file_loads: "\<exists>c. reload_conf sample_conf_file path sp = (0, sp\<lparr>m_conf_path := path, m_spider_conf := c\<rparr>) \<and> conf_ok c"
proof -
  have all: "list_all (item_ok (\<lambda>_. ''x'') (\<lambda>_. 1)) conf_items" by (simp add: conf_tables)
  have "load_conf True (\<lambda>_. ''x'') (\<lambda>_. 1) (m_spider_conf sp) =
      (0, fold (store_item (\<lambda>_. ''x'') (\<lambda>_. 1)) conf_items (m_spider_conf sp))"
    by (rule prod_eqI) (simp_all add: load_conf_result load_conf_def load_items_stored all load_items_result)
  then show ?thesis
    by (intro exI [of _ "fold (store_item (\<lambda>_. ''x'') (\<lambda>_. 1)) conf_items (m_spider_conf sp)"] conjI stored_conf_ok [OF all])
      (simp add: reload_conf_def sample_conf_file_def)
qed

lemma main_status_inverted_witness:
  "spider_main sample_conf_file sample_start 0 2 ''conf'' (spider_new conf_zeroed) = Some (- 1)"
proof -
  obtain c where c: "reload_conf sample_conf_file ''conf'' (spider_new conf_zeroed) =
      (0, (spider_new conf_zeroed)\<lparr>m_conf_path := ''conf'', m_spider_conf := c\<rparr>)"
    using sample_conf_file_loads by blast
  obtain sp' where s: "start sample_start ((spider_new conf_zeroed)\<lparr>m_conf_path := ''conf'', m_spider_conf := c\<rparr>) =
      Some (0, sp', 1, int (nat (work_thread_num (m_spider_conf ((spider_new conf_zeroed)\<lparr>m_conf_path := ''conf'', m_spider_conf := c\<rparr>)))))"
    using sample_start_ok by blast
  show ?thesis using main_status_inverted [OF _ c _ s, of 2 0] by simp
qed

section \<open>Executions\<close>

text \<open>
  What can happen to the shared spider from \<open>start\<close> on: the first load and the rounds of the selecting
  thread and the passes of the crawling threads through their loop, each thread with the rules it has
  loaded, in any order and with any environment. A load, a round or a pass is one step.
\<close>

inductive spider_reach :: "CSpider \<Rightarrow> bool" where
  started: "reload_conf conf_file path sp0 = (0, sp1) \<Longrightarrow> sm_inv (m_domain (m_statis sp0)) \<Longrightarrow>
    start env sp1 = Some (0, sp, selecting, crawling) \<Longrightarrow> spider_reach sp"
| loaded: "spider_reach sp \<Longrightarrow> select_start uc junk stk d sp = Some (True, sp') \<Longrightarrow> spider_reach sp'"
| round: "spider_reach sp \<Longrightarrow> only_pops (r_busy renv) \<Longrightarrow> select_round renv d sp = Some (e, sp', d') \<Longrightarrow>
    e \<noteq> Exit \<Longrightarrow> spider_reach sp'"
| turn: "spider_reach (t_spider s) \<Longrightarrow> thread_start th conv = Some (Runs conv' m) \<Longrightarrow>
    thread_turn th m cenv s = Some (x, s') \<Longrightarrow> spider_reach (t_spider s')"

lemma start_inv:
  assumes "start env sp1 = Some (0, sp, selecting, crawling)" "0 \<le> selected_queue_size (m_spider_conf sp1)"
    and "sm_inv (m_domain (m_statis sp1))"
  shows "spider_inv sp"
  using assms
  by (auto simp: start_def start_init_def start_lists_def start_pools_def Let_def out_init_def sq_init_def sq_new_def
      dns_init_def page_init_def statis_init_def write_message_to_file_def statis_print_def spider_inv_def sq_inv_def
      running_def split: option.splits prod.splits if_splits bool.splits)

lemma reload_conf_ok:
  assumes "reload_conf conf_file path sp = (0, sp')"
  shows "conf_ok (m_spider_conf sp') \<and> m_statis sp' = m_statis sp"
proof -
  obtain readable gs gi where f: "conf_file path = (readable, gs, gi)" by (metis prod_cases3)
  have r: "fst (load_conf readable gs gi (m_spider_conf sp)) = 0"
    and sp': "sp' = sp\<lparr>m_conf_path := path, m_spider_conf := snd (load_conf readable gs gi (m_spider_conf sp))\<rparr>"
    using assms by (auto simp: reload_conf_def f split: prod.splits)
  then have ok: "readable" "list_all (item_ok gs gi) conf_items" by (auto simp: load_conf_result split: if_splits)
  then have "snd (load_conf readable gs gi (m_spider_conf sp)) = fold (store_item gs gi) conf_items (m_spider_conf sp)"
    by (simp add: load_conf_def load_items_stored)
  with stored_conf_ok [OF ok(2)] show ?thesis by (simp add: sp')
qed

lemma spider_reach_inv: "spider_reach sp \<Longrightarrow> spider_inv sp"
proof (induction rule: spider_reach.induct)
  case (started conf_file path sp0 sp1 env sp selecting crawling)
  from reload_conf_ok [OF started(1)] started(2) have "0 \<le> selected_queue_size (m_spider_conf sp1)"
    "sm_inv (m_domain (m_statis sp1))" by (auto simp: conf_ok_def)
  then show ?case by (rule start_inv [OF started(3)])
next
  case (round sp renv d e sp' d')
  then show ?case unfolding spider_inv_shared by (blast intro: select_round_keeps)
next
  case (loaded sp uc junk stk d sp')
  then show ?case unfolding spider_inv_shared by (auto simp: select_start_def intro: load_input_urls_keeps)
next
  case (turn s th conv conv' m cenv x s')
  then show ?case by (elim thread_turn_cases) (auto intro: crawl_turn_keeps)
qed

end
