(* ===== verification/Spider_Threads.thy ===== *)
theory Spider_Threads
  imports Spider_Main
begin

text \<open>
  The running process (\<open>CSpider::start\<close>, \<open>select_thread\<close> and \<open>crawl_thread\<close> of spider.cpp): the selecting
  thread and the crawling threads take turns on the shared spider, one step at a time, in any order. The
  rounds of the selecting thread are cut into steps as the turns of the crawling threads are: in
  particular \<open>insert_url\<close> puts one item at a time into the selected queue and waits while it is full.
\<close>

section \<open>The selecting thread in steps\<close>

text \<open>
  Before the first load; at the head of the loop; with the configuration read; waiting for the queue to
  run down, before a samsara; before \<open>next_round\<close>; before the load behind it; with the round's URLs
  selected; resolving the known sites, those done and those to do; inserting the rest of the selection;
  and after \<open>exit\<close>.
\<close>

datatype select_point =
  Loading | Round_start | Updated | Waiting | Next_samsara | Reloading | Selected
  | Resolving "(string \<times> string) list" "(string \<times> string) list" | Inserting "UrlInfo list" | Process_exit

text \<open>Too few URLs are left for another round. The comparison is unsigned.\<close>

definition few_left :: "CSpider \<Rightarrow> bool" where
  "few_left sp \<longleftrightarrow> m_select_rounds sp > 3 \<and>
     length (m_select_buffer sp) + length (m_select_back_o sp) + length (m_select_back_p sp)
       < unat (of_int (min_select_threshold (m_spider_conf sp)) :: 32 word)"

text \<open>\<open>select_url\<close> up to the wait: the statistics are written and the next samsara decided.\<close>

definition select_decide :: "string \<Rightarrow> (UrlInfo list \<Rightarrow> UrlInfo list) \<Rightarrow> CSpider \<Rightarrow> (select_point \<times> CSpider) option" where
  "select_decide now shuffle sp0 =
     (case set_statis_to_file now (m_statis (select_pick sp0)) of None \<Rightarrow> None
      | Some stat \<Rightarrow>
          (let sp = (select_pick sp0)\<lparr>m_statis := stat\<rparr>
           in if few_left sp then Some (Waiting, sp)
              else Some (Selected, sp\<lparr>m_select_buffer := shuffle (m_select_buffer sp)\<rparr>)))"

text \<open>The wait of \<open>select_url\<close> before it empties the queue.\<close>

definition select_wait :: "CSpider \<Rightarrow> select_point \<times> CSpider" where
  "select_wait sp =
     (if sq_size (mp_selected_queue sp) > min_select_threshold (m_spider_conf sp) then (Waiting, sp)
      else (Next_samsara, sp\<lparr>mp_selected_queue := sq_clear (mp_selected_queue sp), m_select_rounds := 0\<rparr>))"

text \<open>\<open>insert_url\<close>: what was kept aside goes back into the pools and the DNS cache is emptied; the sites
  are resolved one by one; the selection goes into the queue one by one.\<close>

definition put_back :: "CSpider \<Rightarrow> CSpider" where
  "put_back sp = (let sp1 = fold put_back_p (m_select_back_p sp) (fold put_back_o (m_select_back_o sp) sp)
     in sp1\<lparr>m_dns_client := clear_map (m_dns_client sp1)\<rparr>)"

fun resolve_step :: "(string \<Rightarrow> (int \<Rightarrow> dns_env) \<times> string) \<Rightarrow> (string \<times> string) list \<Rightarrow> (string \<times> string) list
    \<Rightarrow> CSpider \<Rightarrow> (select_point \<times> CSpider) option" where
  "resolve_step env ready [] sp =
     (let sp1 = sp\<lparr>m_select_back_o := [], m_select_back_p := []\<rparr> in Some (Inserting (m_select_buffer sp1), sp1))"
| "resolve_step env ready ((s, _) # todo) sp =
     map_option (\<lambda>(ip, m). (Resolving (ready @ [(s, ip)]) todo,
         sp\<lparr>m_dns_client := m, m_sites := (ready @ [(s, ip)]) @ todo\<rparr>))
       (get_site_ip (m_spider_conf sp) (env s) (cstr s) (m_dns_client sp))"

fun insert_step :: "UrlInfo list \<Rightarrow> CSpider \<Rightarrow> select_point \<times> CSpider" where
  "insert_step [] sp = (Round_start, sp\<lparr>m_select_buffer := []\<rparr>)"
| "insert_step (u # us) sp =
     (case sq_push (sq_item u) (mp_selected_queue sp) of
        (True, q) \<Rightarrow> (Inserting us, sp\<lparr>mp_selected_queue := q\<rparr>)
      | (False, q) \<Rightarrow> (Inserting (u # us), sp))"

definition load_step :: "round_env \<Rightarrow> string \<Rightarrow> disk \<Rightarrow> CSpider \<Rightarrow> (select_point \<times> CSpider \<times> disk) option" where
  "load_step env dir d sp =
     map_option (\<lambda>(rc, sp'). (if rc < 0 then Process_exit else Round_start, sp', d))
       (load_input_urls (r_parse env) (r_junk env) (r_input_stack env) d dir sp)"

text \<open>One step of the selecting thread; there is none after \<open>exit\<close>.\<close>

fun select_step :: "round_env \<Rightarrow> select_point \<Rightarrow> disk \<Rightarrow> CSpider \<Rightarrow> (select_point \<times> CSpider \<times> disk) option" where
  "select_step env Loading d sp = load_step env (url_input_dir (m_spider_conf sp)) d sp"
| "select_step env Round_start d sp =
     map_option (\<lambda>(rc, sp', d'). (if rc < 0 then Process_exit else Updated, sp', d'))
       (update_conf (r_conf env) (r_parse env) (r_junk env) (r_stacks env) d
         (sp\<lparr>m_select_rounds := m_select_rounds sp + 1\<rparr>))"
| "select_step env Updated d sp = map_option (\<lambda>(pt, sp'). (pt, sp', d)) (select_decide (r_now env) (r_shuffle env) sp)"
| "select_step env Waiting d sp = (case select_wait sp of (pt, sp') \<Rightarrow> Some (pt, sp', d))"
| "select_step env Next_samsara d sp =
     map_option (\<lambda>(rc, sp', d', _). (if rc < 0 then Process_exit else Reloading, sp', d'))
       (next_round (r_samsara env) d sp)"
| "select_step env Reloading d sp = load_step env (url_output_dir (m_spider_conf sp)) d sp"
| "select_step env Selected d sp = (let sp1 = put_back sp in Some (Resolving [] (m_sites sp1), sp1, d))"
| "select_step env (Resolving ready todo) d sp =
     map_option (\<lambda>(pt, sp'). (pt, sp', d)) (resolve_step (r_dns env) ready todo sp)"
| "select_step env (Inserting us) d sp = (case insert_step us sp of (pt, sp') \<Rightarrow> Some (pt, sp', d))"
| "select_step env Process_exit d sp = None"

section \<open>The process\<close>

text \<open>A crawling thread: what it loaded, its converter, and where it is.\<close>

record crawler =
  c_env :: thread_env
  c_rules :: rule_map
  c_conv :: UTF8Converter
  c_at :: crawl_point

record process =
  y_spider :: CSpider
  y_files :: page_fs
  y_disk :: disk
  y_select :: select_point
  y_crawlers :: "crawler list"

definition crawler_step :: "crawl_env \<Rightarrow> crawler \<Rightarrow> CSpider \<Rightarrow> page_fs
    \<Rightarrow> ((crawl_result option \<times> crawler) \<times> CSpider \<times> page_fs) option" where
  "crawler_step env c sp fs =
     map_option (\<lambda>((x, p), s). ((x, c\<lparr>c_conv := t_conv s, c_at := p\<rparr>), t_spider s, t_files s))
       (thread_step (c_env c) (c_rules c) env (c_at c) \<lparr>t_spider = sp, t_files = fs, t_conv = c_conv c\<rparr>)"

text \<open>Any thread may be the next; what a thread meets outside is chosen anew for each step. A step that is
  undefined has no successor here.\<close>

inductive process_step :: "process \<Rightarrow> process \<Rightarrow> bool" where
  select: "select_step env (y_select y) (y_disk y) (y_spider y) = Some (pt, sp, d) \<Longrightarrow>
    process_step y (y\<lparr>y_spider := sp, y_disk := d, y_select := pt\<rparr>)"
| crawl: "y_select y \<noteq> Process_exit \<Longrightarrow> i < length (y_crawlers y) \<Longrightarrow>
    crawler_step env (y_crawlers y ! i) (y_spider y) (y_files y) = Some ((x, c), sp, fs) \<Longrightarrow>
    process_step y (y\<lparr>y_spider := sp, y_files := fs, y_crawlers := (y_crawlers y)[i := c]\<rparr>)"

inductive_cases process_stepE: "process_step y y'"

text \<open>
  The process from the moment on at which \<open>start\<close> has created the threads: each of the crawling threads that \<open>start\<close> created has loaded its
  rules and stands at the head of its loop (the load touches nothing that is shared). \<open>P\<close> is what is
  known of every configuration that is ever in force.
\<close>

definition process_begun :: "process \<Rightarrow> bool" where
  "process_begun y \<longleftrightarrow>
     (\<exists>conf_file path sp0 sp1 env selecting.
        reload_conf conf_file path sp0 = (0, sp1) \<and> sm_inv (m_domain (m_statis sp0)) \<and>
        start env sp1 = Some (0, y_spider y, selecting, int (length (y_crawlers y)))) \<and>
     (\<forall>c \<in> set (y_crawlers y). c_at c = At_head \<and> (\<exists>conv. thread_start (c_env c) conv = Some (Runs (c_conv c) (c_rules c)))) \<and>
     y_select y = Loading"

inductive process_reach :: "(CSpiderConf \<Rightarrow> bool) \<Rightarrow> process \<Rightarrow> bool" for P where
  begun: "process_begun y \<Longrightarrow> P (m_spider_conf (y_spider y)) \<Longrightarrow> process_reach P y"
| step: "process_reach P y \<Longrightarrow> process_step y y' \<Longrightarrow> P (m_spider_conf (y_spider y')) \<Longrightarrow> process_reach P y'"

section \<open>The steps of the selecting thread keep the invariant\<close>

lemma select_pick_keeps: "shared_inv lp Q sp \<Longrightarrow> shared_inv lp Q ((select_pick sp)\<lparr>m_statis := m_statis (select_pick sp)\<rparr>)"
  by (simp add: shared_inv_def select_pick_def Let_def picking_domain drain_pools_def record_sizes_def)

lemma select_decide_keeps:
  assumes "select_decide now shuffle sp = Some (pt, sp')" "shared_inv lp Q sp"
  shows "shared_inv lp Q sp'"
proof -
  obtain st where st: "set_statis_to_file now (m_statis (select_pick sp)) = Some st"
    using assms(1) by (auto simp: select_decide_def split: option.splits)
  then have "m_domain st = m_domain (m_statis (select_pick sp))"
    by (auto simp: set_statis_to_file_def report_all_counts split: option.splits)
  with assms st select_pick_keeps [OF assms(2)] show ?thesis
    by (auto simp: select_decide_def Let_def shared_inv_def split: if_splits)
qed

lemma put_back_keeps: "shared_inv lp Q sp \<Longrightarrow> shared_inv lp Q (put_back sp)"
proof -
  have "m_statis (fold put_back_o us s) = m_statis s" "m_statis (fold put_back_p us s) = m_statis s"
    "mp_level_pool (fold put_back_o us s) = mp_level_pool s" "mp_level_pool (fold put_back_p us s) = mp_level_pool s" for us s
    by (induction us arbitrary: s) (simp_all add: put_back_o_def put_back_p_def)
  then show "shared_inv lp Q sp \<Longrightarrow> shared_inv lp Q (put_back sp)"
    by (simp add: shared_inv_def put_back_def Let_def fold_put_back_o fold_put_back_p)
qed

lemma resolve_step_keeps:
  "resolve_step env ready todo sp = Some (pt, sp') \<Longrightarrow> shared_inv lp Q sp \<Longrightarrow> shared_inv lp Q sp'"
  by (induction env ready todo sp rule: resolve_step.induct) (auto simp: shared_inv_def)

lemma insert_step_keeps:
  assumes "insert_step us sp = (pt, sp')" "shared_inv lp Q sp" "\<And>u. Q (sq_item u)"
  shows "shared_inv lp Q sp'"
proof (cases us)
  case Nil
  then show ?thesis using assms by (auto simp: shared_inv_def)
next
  case (Cons u rest)
  obtain b q where q: "sq_push (sq_item u) (mp_selected_queue sp) = (b, q)" by fastforce
  have "sq_inv q" using sq.push_ok [of "mp_selected_queue sp" "sq_item u"] assms(2) by (simp add: q shared_inv_def)
  moreover have "items_all Q q"
    using items_all_push [of Q "mp_selected_queue sp" "sq_item u"] assms(2,3) by (simp add: q shared_inv_def)
  ultimately show ?thesis using assms(1,2) by (cases b) (auto simp: Cons q shared_inv_def)
qed

lemma select_wait_keeps: "select_wait sp = (pt, sp') \<Longrightarrow> shared_inv lp Q sp \<Longrightarrow> shared_inv lp Q sp'"
  using sq.clear_law [of "mp_selected_queue sp"]
  by (auto simp: select_wait_def shared_inv_def items_all_def split: if_splits)

lemma select_step_keeps:
  assumes "select_step env pt d sp = Some (pt', sp', d')" "shared_inv lp Q sp" "\<And>u. Q (sq_item u)"
  shows "shared_inv lp Q sp'"
proof (cases pt)
  case Round_start
  have "shared_inv lp Q (sp\<lparr>m_select_rounds := m_select_rounds sp + 1\<rparr>)" using assms(2) by (simp add: shared_inv_def)
  then show ?thesis using assms(1) by (auto simp: Round_start intro: update_conf_keeps)
next
  case (Inserting us)
  then show ?thesis using assms by (auto split: prod.splits intro: insert_step_keeps)
next
  case Selected
  then show ?thesis using assms put_back_keeps [OF assms(2)] by (auto simp: Let_def)
qed (use assms in \<open>auto simp: load_step_def split: prod.splits
    intro: load_input_urls_keeps select_decide_keeps select_wait_keeps next_round_keeps resolve_step_keeps\<close>)

section \<open>The invariant of the process\<close>

definition holders :: "process \<Rightarrow> string \<Rightarrow> nat" where
  "holders y site = length (filter (\<lambda>c. slot (c_at c) = Some site) (y_crawlers y))"

text \<open>\<open>limit\<close>, \<open>f\<close> and \<open>d\<close> bound what the configurations allow.\<close>

definition process_inv :: "int \<Rightarrow> int \<Rightarrow> int \<Rightarrow> process \<Rightarrow> bool" where
  "process_inv limit f d y \<longleftrightarrow>
     shared_inv (mp_level_pool (y_spider y)) (counts_within (f + 1) (d + 1)) (y_spider y) \<and>
     (\<forall>site. running (mp_level_pool (y_spider y)) site = int (holders y site) \<and>
             int (holders y site) \<le> limit) \<and>
     (\<forall>c \<in> set (y_crawlers y). hand_within f d (c_at c))"

definition conf_within :: "int \<Rightarrow> int \<Rightarrow> int \<Rightarrow> CSpiderConf \<Rightarrow> bool" where
  "conf_within limit f d conf \<longleftrightarrow>
     0 < default_max_concurrent_thread_count conf \<and> default_max_concurrent_thread_count conf \<le> limit \<and>
     0 \<le> f \<and> max_url_fail_count conf \<le> f \<and> 0 \<le> d \<and> max_dns_query_count conf \<le> d"

lemma length_filter_update:
  "i < length xs \<Longrightarrow>
   int (length (filter P (xs[i := x]))) = int (length (filter P xs)) + of_bool (P x) - of_bool (P (xs ! i))"
proof (induction xs arbitrary: i)
  case (Cons y ys)
  then show ?case by (cases i) auto
qed simp

lemma set_update_in: "c \<in> set (xs[i := x]) \<Longrightarrow> c \<in> set xs \<or> c = x"
  using set_update_subset_insert by fast

lemma crawler_step_cases:
  assumes "crawler_step env c sp fs = Some ((x, c'), sp', fs')"
  obtains (paused) "c_at c = At_head" "x = None" "c' = c" "sp' = sp" "fs' = fs"
  | (step) s' where "crawl_step (with_rules (c_env c) (c_rules c) env) (c_at c)
        \<lparr>t_spider = sp, t_files = fs, t_conv = c_conv c\<rparr> = Some ((x, c_at c'), s')" "sp' = t_spider s'" "fs' = t_files s'"
  using assms by (cases c) (auto simp: crawler_step_def thread_step_def split: if_splits)

lemma holders_update:
  "i < length (y_crawlers y) \<Longrightarrow>
   int (holders (y\<lparr>y_spider := sp, y_files := fs, y_crawlers := (y_crawlers y)[i := c]\<rparr>) site) =
     int (holders y site) + of_bool (slot (c_at c) = Some site) - of_bool (slot (c_at (y_crawlers y ! i)) = Some site)"
  by (simp add: holders_def length_filter_update)

lemma holder_started:
  assumes "process_inv limit f d y" "c \<in> set (y_crawlers y)" "slot (c_at c) = Some k"
  shows "last_start (mp_level_pool (y_spider y)) k \<noteq> None"
proof -
  have "holders y k > 0" using assms(2,3) by (auto simp: holders_def filter_empty_conv)
  then have "running (mp_level_pool (y_spider y)) k \<noteq> 0" using assms(1) by (auto simp: process_inv_def)
  then show ?thesis using lp.fresh_count by blast
qed

lemma process_inv_crawl:
  assumes inv: "process_inv limit f d y" and conf: "conf_within limit f d (m_spider_conf (y_spider y))"
    and i: "i < length (y_crawlers y)"
    and st: "crawler_step env (y_crawlers y ! i) (y_spider y) (y_files y) = Some ((x, c), sp, fs)"
  shows "process_inv limit f d (y\<lparr>y_spider := sp, y_files := fs, y_crawlers := (y_crawlers y)[i := c]\<rparr>)"
  using st
proof (cases rule: crawler_step_cases)
  case paused
  then have "y\<lparr>y_spider := sp, y_files := fs, y_crawlers := (y_crawlers y)[i := c]\<rparr> = y" by simp
  with inv show ?thesis by simp
next
  case (step s')
  let ?c = "y_crawlers y ! i" and ?lp = "mp_level_pool (y_spider y)"
  let ?s = "\<lparr>t_spider = y_spider y, t_files = y_files y, t_conv = c_conv ?c\<rparr>"
  have c: "?c \<in> set (y_crawlers y)" using i by simp
  note started = holder_started [OF inv c]
  have sh: "shared_inv ?lp (counts_within (f + 1) (d + 1)) (y_spider y)"
    and run: "\<And>site. running ?lp site = int (holders y site)" "\<And>site. running ?lp site \<le> limit"
    and hand: "\<forall>c \<in> set (y_crawlers y). hand_within f d (c_at c)"
    using inv by (auto simp: process_inv_def)
  have run': "running (mp_level_pool sp) site = running ?lp site + of_bool (slot (c_at c) = Some site) - of_bool (slot (c_at ?c) = Some site)"
    for site using crawl_step_running [OF step(1)] started by (simp add: step(2))
  have lim: "running (mp_level_pool sp) site \<le> limit" for site
    using crawl_step_limit [OF step(1), of limit site] conf started run(2) [of site] run' [of site]
    by (cases "slot (c_at c) = Some site"; cases "slot (c_at ?c) = Some site")
      (auto simp: conf_within_def step(2))
  have cnt: "items_all (counts_within (f + 1) (d + 1)) (mp_selected_queue sp) \<and> hand_within f d (c_at c)"
    using crawl_step_counts [OF step(1), of f d] conf sh hand c by (simp add: conf_within_def shared_inv_def step(2))
  have "sq_inv (mp_selected_queue sp)" "m_domain (m_statis sp) = m_domain (m_statis (y_spider y))"
    using crawl_step_sq_inv [OF step(1)] crawl_step_domains [OF step(1)] sh by (simp_all add: shared_inv_def step(2))
  with sh cnt lim run run' hand show ?thesis
    by (auto simp: process_inv_def shared_inv_def holders_update [OF i] dest!: set_update_in)
qed

lemma process_inv_select:
  assumes "process_inv limit f d y" "conf_within limit f d (m_spider_conf (y_spider y))"
    and "select_step env (y_select y) (y_disk y) (y_spider y) = Some (pt, sp, dk)"
  shows "process_inv limit f d (y\<lparr>y_spider := sp, y_disk := dk, y_select := pt\<rparr>)"
proof -
  have q: "counts_within (f + 1) (d + 1) (sq_item u)" for u
    using assms(2) by (simp add: counts_within_def sq_item_def conf_within_def)
  have "shared_inv (mp_level_pool (y_spider y)) (counts_within (f + 1) (d + 1)) sp"
    by (rule select_step_keeps [where Q = "counts_within (f + 1) (d + 1)", OF assms(3)])
      (use assms(1) q in \<open>simp_all add: process_inv_def\<close>)
  then show ?thesis using assms(1) by (auto simp: process_inv_def shared_inv_def holders_def)
qed

lemma start_queue_empty:
  "start env sp = Some (0, sp', selecting, crawling) \<Longrightarrow> m_queue (mp_selected_queue sp') = []"
  by (auto simp: start_def start_init_def start_lists_def start_pools_def Let_def sq_init_def sq_new_def
      split: option.splits prod.splits if_splits bool.splits)

lemma process_inv_begun:
  assumes "process_begun y" "conf_within limit f d (m_spider_conf (y_spider y))"
  shows "process_inv limit f d y"
proof -
  obtain conf_file path sp0 sp1 env selecting where r: "reload_conf conf_file path sp0 = (0, sp1)"
    and d: "sm_inv (m_domain (m_statis sp0))"
    and s: "start env sp1 = Some (0, y_spider y, selecting, int (length (y_crawlers y)))"
    using assms(1) unfolding process_begun_def by blast
  have "spider_inv (y_spider y)"
    by (rule start_inv [OF s]) (use reload_conf_ok [OF r] d in \<open>auto simp: conf_ok_def\<close>)
  moreover have "m_queue (mp_selected_queue (y_spider y)) = []" by (rule start_queue_empty [OF s])
  moreover have "c_at c = At_head" if "c \<in> set (y_crawlers y)" for c
    using assms(1) that by (simp add: process_begun_def)
  ultimately show ?thesis
    using assms(2) by (auto simp: process_inv_def shared_inv_def spider_inv_def items_all_def holders_def hand_within_def
        conf_within_def filter_empty_conv)
qed

lemma process_reach_inv:
  "process_reach P y \<Longrightarrow> (\<And>conf. P conf \<Longrightarrow> conf_within limit f d conf) \<Longrightarrow> process_inv limit f d y \<and> P (m_spider_conf (y_spider y))"
proof (induction rule: process_reach.induct)
  case (begun y)
  then show ?case by (blast intro: process_inv_begun)
next
  case (step y y')
  from step(2) show ?case
    by (rule process_stepE) (use step in \<open>blast intro: process_inv_crawl process_inv_select\<close>)+
qed

section \<open>The URLs in flight\<close>

text \<open>Every URL that waits in the selected queue or that a crawling thread has in hand.\<close>

definition in_flight :: "process \<Rightarrow> string multiset" where
  "in_flight y = image_mset sq_url (mset (m_queue (mp_selected_queue (y_spider y)))) +
     sum_list (map (\<lambda>c. hand_url (c_at c)) (y_crawlers y))"

lemma sum_list_update_mset:
  fixes h :: "'a \<Rightarrow> 'b multiset"
  shows "i < length xs \<Longrightarrow> sum_list (map h xs) = h (xs ! i) + sum_list (map h (take i xs @ drop (Suc i) xs)) \<and>
   sum_list (map h (xs[i := x])) = h x + sum_list (map h (take i xs @ drop (Suc i) xs))"
  by (simp add: upd_conv_take_nth_drop ac_simps)
    (metis (no_types) add.left_commute id_take_nth_drop list.simps(9) map_append sum_list.Cons sum_list_append)

text \<open>What the other threads have in hand.\<close>

definition others_hold :: "nat \<Rightarrow> process \<Rightarrow> string multiset" where
  "others_hold i y = sum_list (map (\<lambda>c. hand_url (c_at c)) (take i (y_crawlers y) @ drop (Suc i) (y_crawlers y)))"

lemma in_flight_thread:
  assumes "i < length (y_crawlers y)"
  shows "in_flight y = flight (mp_selected_queue (y_spider y)) (c_at (y_crawlers y ! i)) + others_hold i y"
    and "in_flight (y\<lparr>y_spider := sp, y_files := fs, y_crawlers := (y_crawlers y)[i := c]\<rparr>) =
      flight (mp_selected_queue sp) (c_at c) + others_hold i y"
  using sum_list_update_mset [OF assms, of "\<lambda>c. hand_url (c_at c)"]
  by (simp_all add: in_flight_def flight_def others_hold_def ac_simps)

section \<open>An insertion that fills the queue\<close>

lemma insertion_fills:
  assumes "sq_inv (mp_selected_queue (y_spider y))" "y_select y = Inserting us" "k \<le> length us"
    and "int k = m_size (mp_selected_queue (y_spider y)) - m_count (mp_selected_queue (y_spider y))"
  shows "process_step\<^sup>*\<^sup>* y (y\<lparr>y_spider := (y_spider y)\<lparr>mp_selected_queue := (mp_selected_queue (y_spider y))
      \<lparr>m_queue := m_queue (mp_selected_queue (y_spider y)) @ map sq_item (take k us),
       m_count := m_size (mp_selected_queue (y_spider y))\<rparr>\<rparr>, y_select := Inserting (drop k us)\<rparr>)"
  using assms
proof (induction k arbitrary: y us)
  case 0
  then have "y\<lparr>y_spider := (y_spider y)\<lparr>mp_selected_queue := (mp_selected_queue (y_spider y))
      \<lparr>m_count := m_size (mp_selected_queue (y_spider y))\<rparr>\<rparr>, y_select := Inserting us\<rparr> = y"
    by simp
  then show ?case by simp
next
  case (Suc k)
  then obtain u rest where us: "us = u # rest" by (cases us) auto
  let ?q = "mp_selected_queue (y_spider y)"
  let ?q1 = "?q\<lparr>m_count := m_count ?q + 1, m_queue := m_queue ?q @ [sq_item u]\<rparr>"
  let ?y1 = "y\<lparr>y_spider := (y_spider y)\<lparr>mp_selected_queue := ?q1\<rparr>, y_disk := y_disk y, y_select := Inserting rest\<rparr>"
  have "m_count ?q \<noteq> m_size ?q" using Suc.prems(4) by simp
  then have p: "sq_push (sq_item u) ?q = (True, ?q1)" by (simp add: sq_push_def)
  have "select_step undefined (y_select y) (y_disk y) (y_spider y) =
      Some (Inserting rest, (y_spider y)\<lparr>mp_selected_queue := ?q1\<rparr>, y_disk y)"
    by (simp add: Suc.prems(2) us p)
  then have "process_step y ?y1" by (rule process_step.select)
  moreover have "sq_inv ?q1" using sq.push_ok [OF Suc.prems(1), of "sq_item u"] by (simp add: p)
  then have "process_step\<^sup>*\<^sup>* ?y1 (?y1\<lparr>y_spider := (y_spider ?y1)\<lparr>mp_selected_queue := (mp_selected_queue (y_spider ?y1))
      \<lparr>m_queue := m_queue (mp_selected_queue (y_spider ?y1)) @ map sq_item (take k rest),
       m_count := m_size (mp_selected_queue (y_spider ?y1))\<rparr>\<rparr>, y_select := Inserting (drop k rest)\<rparr>)"
    using Suc.prems(3,4) by (intro Suc.IH) (auto simp: us)
  ultimately show ?case by (simp add: us converse_rtranclp_into_rtranclp)
qed

section \<open>A round without interruption\<close>

definition select_runs :: "round_env \<Rightarrow> select_point \<times> disk \<times> CSpider \<Rightarrow> select_point \<times> disk \<times> CSpider \<Rightarrow> bool" where
  "select_runs env = (\<lambda>(pt, d, sp) (pt', d', sp'). select_step env pt d sp = Some (pt', sp', d'))"

lemma resolve_runs:
  assumes "resolve_sites (m_spider_conf sp) (r_dns env) sites (m_dns_client sp) = Some (sites', m)"
    and "m_sites sp = ready @ sites"
  shows "(select_runs env)\<^sup>*\<^sup>* (Resolving ready sites, d, sp)
    (Resolving (ready @ sites') [], d, sp\<lparr>m_dns_client := m, m_sites := ready @ sites'\<rparr>)"
  using assms
proof (induction sites arbitrary: sp sites' ready)
  case Nil
  then have "sp\<lparr>m_dns_client := m, m_sites := ready @ sites'\<rparr> = sp" "sites' = []" by auto
  then show ?case by simp
next
  case (Cons p sites)
  obtain s old where p: "p = (s, old)" by (cases p)
  from Cons.prems(1) obtain ip m1 rest where g: "get_site_ip (m_spider_conf sp) (r_dns env s) (cstr s) (m_dns_client sp) = Some (ip, m1)"
    and r: "resolve_sites (m_spider_conf sp) (r_dns env) sites m1 = Some (rest, m)" and s': "sites' = (s, ip) # rest"
    by (auto simp: p bind_eq_Some_conv)
  let ?sp1 = "sp\<lparr>m_dns_client := m1, m_sites := (ready @ [(s, ip)]) @ sites\<rparr>"
  have "select_runs env (Resolving ready (p # sites), d, sp) (Resolving (ready @ [(s, ip)]) sites, d, ?sp1)"
    by (simp add: select_runs_def p g)
  moreover have "(select_runs env)\<^sup>*\<^sup>* (Resolving (ready @ [(s, ip)]) sites, d, ?sp1)
      (Resolving ((ready @ [(s, ip)]) @ rest) [], d, ?sp1\<lparr>m_dns_client := m, m_sites := (ready @ [(s, ip)]) @ rest\<rparr>)"
    using r by (intro Cons.IH) simp_all
  ultimately show ?case by (simp add: s' converse_rtranclp_into_rtranclp)
qed

lemma insert_runs:
  assumes "push_selected (\<lambda>_ q. q) n us (mp_selected_queue sp) = Some q"
  shows "(select_runs env)\<^sup>*\<^sup>* (Inserting us, d, sp) (Inserting [], d, sp\<lparr>mp_selected_queue := q\<rparr>)"
  using assms
proof (induction us arbitrary: n sp)
  case Nil
  then have "sp\<lparr>mp_selected_queue := q\<rparr> = sp" by auto
  then show ?case by simp
next
  case (Cons u us)
  then obtain q1 where p: "sq_push (sq_item u) (mp_selected_queue sp) = (True, q1)"
    "push_selected (\<lambda>_ q. q) (Suc n) us q1 = Some q" by (auto split: prod.splits bool.splits)
  let ?sp1 = "sp\<lparr>mp_selected_queue := q1\<rparr>"
  have "select_runs env (Inserting (u # us), d, sp) (Inserting us, d, ?sp1)" by (simp add: select_runs_def p)
  moreover have "(select_runs env)\<^sup>*\<^sup>* (Inserting us, d, ?sp1) (Inserting [], d, ?sp1\<lparr>mp_selected_queue := q\<rparr>)"
    using p(2) by (intro Cons.IH) simp
  ultimately show ?case by (simp add: converse_rtranclp_into_rtranclp)
qed

lemma select_url_decide:
  assumes "select_url now shuffle drains sp = Some (rc, sp')" "\<not> rc < 0"
  shows "select_decide now shuffle sp = Some (Selected, sp')"
  using assms by (auto simp: select_url_def select_decide_def few_left_def Let_def split: option.splits if_splits)

lemma insert_url_runs:
  assumes "insert_url (r_dns env) (\<lambda>_ q. q) sp = Some (rc, sp')"
  shows "(select_runs env)\<^sup>*\<^sup>* (Selected, d, sp) (Round_start, d, sp')"
proof -
  let ?sp0 = "fold put_back_p (m_select_back_p sp) (fold put_back_o (m_select_back_o sp) sp)"
  let ?sp1 = "put_back sp"
  have f: "m_dns_client ?sp1 = clear_map (m_dns_client ?sp0)" "m_spider_conf ?sp1 = m_spider_conf ?sp0"
    "m_sites ?sp1 = m_sites ?sp0" "mp_selected_queue ?sp1 = mp_selected_queue ?sp0"
    "m_select_buffer ?sp1 = m_select_buffer ?sp0" by (simp_all add: put_back_def Let_def)
  from assms obtain sites m q where r: "resolve_sites (m_spider_conf ?sp1) (r_dns env) (m_sites ?sp1) (m_dns_client ?sp1) = Some (sites, m)"
    and q: "push_selected (\<lambda>_ q. q) 0 (m_select_buffer ?sp1) (mp_selected_queue ?sp1) = Some q"
    and sp': "sp' = ?sp0\<lparr>m_dns_client := m, m_sites := sites, m_select_back_o := [], m_select_back_p := [],
      mp_selected_queue := q, m_select_buffer := []\<rparr>"
    unfolding f by (auto simp: insert_url_def Let_def bind_eq_Some_conv)
  let ?sp2 = "?sp1\<lparr>m_dns_client := m, m_sites := sites\<rparr>"
  let ?sp3 = "?sp2\<lparr>m_select_back_o := [], m_select_back_p := []\<rparr>"
  have 1: "select_runs env (Selected, d, sp) (Resolving [] (m_sites ?sp1), d, ?sp1)"
    by (simp add: select_runs_def Let_def)
  have 2: "(select_runs env)\<^sup>*\<^sup>* (Resolving [] (m_sites ?sp1), d, ?sp1) (Resolving sites [], d, ?sp2)"
    using resolve_runs [OF r, of "[]" d] by simp
  have 3: "select_runs env (Resolving sites [], d, ?sp2) (Inserting (m_select_buffer ?sp1), d, ?sp3)"
    by (simp add: select_runs_def Let_def)
  have 4: "(select_runs env)\<^sup>*\<^sup>* (Inserting (m_select_buffer ?sp1), d, ?sp3) (Inserting [], d, ?sp3\<lparr>mp_selected_queue := q\<rparr>)"
    using q by (intro insert_runs) simp
  have 5: "select_runs env (Inserting [], d, ?sp3\<lparr>mp_selected_queue := q\<rparr>) (Round_start, d, sp')"
    by (simp add: select_runs_def sp' put_back_def Let_def)
  show ?thesis
    by (rule converse_rtranclp_into_rtranclp [where r = "select_runs env", OF 1], rule rtranclp_trans [OF 2],
        rule converse_rtranclp_into_rtranclp [where r = "select_runs env", OF 3], rule rtranclp.rtrancl_into_rtrancl [OF 4 5])
qed

section \<open>A process on concrete values\<close>

text \<open>One crawling thread with an item of a site that has no slot free, a queue with room for one more, and
  \<open>us\<close> to be inserted.\<close>

definition busy_located :: located where
  "busy_located = \<lparr>l_item = busy_item, l_site = ''a.b'', l_domain = ''a.b'', l_ip = ''1.2.3.4''\<rparr>"

definition busy_process :: "UrlInfo list \<Rightarrow> process" where
  "busy_process us = \<lparr>y_spider = (t_spider busy_state)\<lparr>mp_selected_queue := \<lparr>m_queue = [], m_size = 1, m_count = 0\<rparr>\<rparr>,
     y_files = \<lparr>pg_dirs = {}, pg_files = Map.empty\<rparr>, y_disk = sample_disk [] [], y_select = Inserting us,
     y_crawlers = [\<lparr>c_env = sample_thread [], c_rules = [], c_conv = utf8_new 0 [] 0, c_at = Located busy_located\<rparr>]\<rparr>"

lemma busy_process_denies:
  "is_crawl_enabled (m_spider_conf (y_spider (busy_process us))) 0 (l_site busy_located) (mp_level_pool (y_spider (busy_process us))) =
     (False, mp_level_pool (y_spider (busy_process us)))"
  by (simp add: busy_process_def busy_state_def busy_located_def is_crawl_enabled_def spider_new_def conf_zeroed_def)

lemma busy_process_flight: "in_flight (busy_process us) = {#''http://a.b/1''#}"
  by (simp add: in_flight_def busy_process_def busy_located_def busy_item_def)

lemma busy_process_inv: "process_inv 1 0 0 (busy_process us)"
  by (simp add: process_inv_def shared_inv_def busy_process_def busy_state_def sq_inv_def items_all_def spider_new_def
      statis_new_def sm_inv_def running_def holders_def hand_within_def counts_within_def busy_located_def busy_item_def)

text \<open>A spider whose files are up to date and whose pools are empty.\<close>

definition idle_spider :: CSpider where
  "idle_spider = sample_current\<lparr>m_statis := statis_new\<lparr>m_fp := Some []\<rparr>, mp_selected_queue := snd (sq_init 0 20 sq_new)\<rparr>"

definition idle_round :: round_env where
  "idle_round = \<lparr>r_conf = \<lambda>_. (False, \<lambda>_. [], \<lambda>_. 0), r_parse = sample_parser, r_junk = 0,
     r_stacks = (sample_stack, sample_stack), r_input_stack = sample_stack, r_now = [], r_shuffle = id, r_drains = True,
     r_samsara = \<lparr>n_now = [], n_system = \<lambda>_. Pair 0, n_opened = (True, True, True), n_mutex = (0, 0, 0)\<rparr>,
     r_dns = \<lambda>_. no_socket, r_busy = \<lambda>_ q. q, r_elapsed = 0\<rparr>"

lemma idle_round_sleeps:
  "\<exists>n sp'. select_round idle_round (sample_disk [] []) idle_spider = Some (Slept n, sp', sample_disk [] [])"
proof -
  let ?d = "sample_disk [] []"
  define sp1 where "sp1 = idle_spider\<lparr>m_select_rounds := m_select_rounds idle_spider + 1\<rparr>"
  have "up_to_date ?d sp1"
    using sample_current_up_to_date [of "[]"] by (simp add: sp1_def up_to_date_def idle_spider_def sample_disk_def sample_current_def)
  then have u: "update_conf (r_conf idle_round) (r_parse idle_round) (r_junk idle_round) (r_stacks idle_round) ?d sp1 = Some (0, sp1, ?d)"
    by (rule update_conf_up_to_date)
  have dom: "prio_domains [] = []" "ord_domains [] = []" by (simp_all add: prio_domains_def ord_domains_def)
  have fp: "m_fp (m_statis (select_pick sp1)) = Some []" "m_select_buffer (select_pick sp1) = []"
    by (simp_all add: select_pick_def Let_def record_sizes_def drain_pools_def sp1_def idle_spider_def sample_current_def
        statis_new_def spider_new_def dom)
  have "m_select_rounds (select_pick sp1) = 1"
    by (simp add: select_pick_frame sp1_def idle_spider_def sample_current_def spider_new_def)
  with fp obtain sp2 where s: "select_url (r_now idle_round) (r_shuffle idle_round) (r_drains idle_round) sp1 = Some (0, sp2)"
    by (simp add: select_url_def set_statis_to_file_def Let_def)
  obtain stat where sp2: "sp2 = (select_pick sp1)\<lparr>m_statis := stat,
      m_select_buffer := r_shuffle idle_round (m_select_buffer (select_pick sp1))\<rparr>"
    using select_url_cases [OF s] by (metis zero_neq_neg_one)
  have base: "mp_selected_queue sp1 = snd (sq_init 0 20 sq_new)" "m_spider_conf sp1 = sample_conf" "r_shuffle idle_round [] = []"
    by (simp_all add: sp1_def idle_spider_def sample_current_def idle_round_def)
  have f: "mp_selected_queue sp2 = snd (sq_init 0 20 sq_new)" "m_spider_conf sp2 = sample_conf" "m_select_buffer sp2 = []"
    unfolding sp2 by (simp_all add: select_pick_frame fp base)
  obtain sp3 where i: "insert_url (r_dns idle_round) (r_busy idle_round) sp2 = Some (0, sp3)"
    using insert_url_no_socket [of sp2] f
    by (auto simp: idle_round_def sample_conf_def conf_zeroed_def cstr_def sq_inv_def sq_init_def sq_new_def)
  show ?thesis using u s i by (simp add: select_round_def sp1_def)
qed

section \<open>Properties\<close>

text \<open>C2: No URL gets lost between the queue and the threads while the queue has room: whatever the other threads
  have in hand, a step of a crawling thread in the middle of a turn keeps every URL in flight, the step
  that ends a turn to try again keeps them all exactly, and only a step that ends the way of an item
  (dropped, refused or crawled) takes away one URL.\<close>

theorem urls_stay_in_flight:
  assumes "process_inv limit f d y" "i < length (y_crawlers y)"
    and "crawler_step env (y_crawlers y ! i) (y_spider y) (y_files y) = Some ((x, c), sp, fs)"
    and "sq_size (mp_selected_queue (y_spider y)) < m_size (mp_selected_queue (y_spider y))"
  defines "y' \<equiv> y\<lparr>y_spider := sp, y_files := fs, y_crawlers := (y_crawlers y)[i := c]\<rparr>"
  shows "case x of
      None \<Rightarrow> in_flight y \<subseteq># in_flight y'
    | Some r \<Rightarrow> if goes_on r then in_flight y' = in_flight y else \<exists>u. in_flight y = add_mset u (in_flight y')"
proof -
  note o = in_flight_thread [OF assms(2)]
  have inv: "sq_inv (mp_selected_queue (y_spider y))" using assms(1) by (simp add: process_inv_def shared_inv_def)
  then have room: "int (length (m_queue (mp_selected_queue (y_spider y)))) < m_size (mp_selected_queue (y_spider y))"
    using assms(4) by (simp add: sq_size_def sq_inv_def)
  show ?thesis
    using assms(3)
  proof (cases rule: crawler_step_cases)
    case paused
    then show ?thesis by (simp add: y'_def)
  next
    case (step s')
    from crawl_step_flight [OF step(1)] inv room step(2) show ?thesis
      by (auto simp: y'_def o split: option.splits if_splits)
  qed
qed

lemma urls_stay_in_flight_witness:
  "\<exists>c sp fs. crawler_step sample_env (y_crawlers (busy_process []) ! 0) (y_spider (busy_process [])) (y_files (busy_process [])) =
       Some ((Some Delayed, c), sp, fs) \<and>
     in_flight ((busy_process [])\<lparr>y_spider := sp, y_files := fs, y_crawlers := (y_crawlers (busy_process []))[0 := c]\<rparr>) =
       {#''http://a.b/1''#}"
proof -
  let ?y = "busy_process []"
  have at_site: "c_at (y_crawlers ?y ! 0) = Located busy_located" by (simp add: busy_process_def)
  have "\<exists>c sp fs. crawler_step sample_env (y_crawlers ?y ! 0) (y_spider ?y) (y_files ?y) = Some ((Some Delayed, c), sp, fs)"
    using busy_process_denies [of "[]"]
    by (simp add: crawler_step_def thread_step_def at_site ask_slot_def arrive_def with_rules_def sample_env_def)
  then obtain c sp fs where st: "crawler_step sample_env (y_crawlers ?y ! 0) (y_spider ?y) (y_files ?y) = Some ((Some Delayed, c), sp, fs)"
    by blast
  have "sq_size (mp_selected_queue (y_spider ?y)) < m_size (mp_selected_queue (y_spider ?y))" "0 < length (y_crawlers ?y)"
    by (simp_all add: busy_process_def sq_size_def)
  from urls_stay_in_flight [OF busy_process_inv this(2) st this(1)] st show ?thesis
    by (auto simp: goes_on_def busy_process_flight)
qed

text \<open>C5: But the selecting thread itself takes the room away: \<open>insert_url\<close> waits for a full queue and fills
  every place that becomes free. From any moment at which it has more URLs to insert than there is
  room, it can fill the queue before a crawling thread puts an item of a busy site back; the push is
  refused, its result is ignored, and the URL is gone: it is in nobody's hand, it has not been put
  back, and the list of failed URLs says nothing.\<close>

theorem waiting_insertion_loses_retries:
  assumes "sq_inv (mp_selected_queue (y_spider y))" "y_select y = Inserting us" "k \<le> length us"
    and "int k = m_size (mp_selected_queue (y_spider y)) - m_count (mp_selected_queue (y_spider y))"
    and "i < length (y_crawlers y)" "c_at (y_crawlers y ! i) = Located l"
    and "is_crawl_enabled (m_spider_conf (y_spider y)) now (l_site l) (mp_level_pool (y_spider y)) = (False, lp)"
  shows "\<exists>y'. process_step\<^sup>*\<^sup>* y y' \<and> y_select y' = Inserting (drop k us) \<and> c_at (y_crawlers y' ! i) = At_head \<and>
    mp_fail_output (y_spider y') = mp_fail_output (y_spider y) \<and>
    add_mset (sq_url (l_item l)) (in_flight y') = in_flight y + image_mset ui_url (mset (take k us))"
proof -
  let ?q = "mp_selected_queue (y_spider y)" and ?c = "y_crawlers y ! i"
  define q1 where "q1 = ?q\<lparr>m_queue := m_queue ?q @ map sq_item (take k us), m_count := m_size ?q\<rparr>"
  define sp1 where "sp1 = (y_spider y)\<lparr>mp_selected_queue := q1\<rparr>"
  define y1 where "y1 = y\<lparr>y_spider := sp1, y_select := Inserting (drop k us)\<rparr>"
  define c2 where "c2 = ?c\<lparr>c_conv := c_conv ?c, c_at := At_head\<rparr>"
  let ?y2 = "y1\<lparr>y_spider := sp1, y_files := y_files y1, y_crawlers := (y_crawlers y1)[i := c2]\<rparr>"
  have y1: "y_spider y1 = sp1" "y_select y1 = Inserting (drop k us)" "y_crawlers y1 = y_crawlers y" by (simp_all add: y1_def)
  have sp1: "mp_selected_queue sp1 = q1" "mp_level_pool sp1 = mp_level_pool (y_spider y)"
    "m_spider_conf sp1 = m_spider_conf (y_spider y)" "mp_fail_output sp1 = mp_fail_output (y_spider y)"
    by (simp_all add: sp1_def)
  have run: "process_step\<^sup>*\<^sup>* y y1"
    unfolding y1_def sp1_def q1_def by (rule insertion_fills [OF assms(1-4)])
  have lp: "lp = mp_level_pool (y_spider y)"
    using lp.deny [of "m_spider_conf (y_spider y)" now "l_site l" "mp_level_pool (y_spider y)"] assms(7) by simp
  have full: "sp1\<lparr>mp_level_pool := lp, mp_selected_queue := snd (sq_push (l_item l) q1)\<rparr> = sp1"
    by (simp add: sp1_def lp sq_push_def q1_def)
  have "crawler_step (sample_env\<lparr>clock_ms := now\<rparr>) (y_crawlers y1 ! i) (y_spider y1) (y_files y1) =
      Some ((Some Delayed, c2), sp1, y_files y1)"
    using full assms(7)
    by (simp add: crawler_step_def thread_step_def assms(6) arrive_def ask_slot_def requeue_def with_rules_def y1 sp1 c2_def)
  then have st: "process_step y1 ?y2" using assms(5) by (intro process_step.crawl) (simp_all add: y1)
  have i: "i < length (y_crawlers y1)" using assms(5) by (simp add: y1)
  have o: "in_flight y1 = flight q1 (Located l) + others_hold i y1" "in_flight ?y2 = flight q1 At_head + others_hold i y1"
    using in_flight_thread(1) [OF i] in_flight_thread(2) [OF i, where sp = sp1 and fs = "y_files y1" and c = c2] assms(6)
    by (simp_all add: y1 sp1 c2_def)
  have "in_flight y1 = in_flight y + image_mset ui_url (mset (take k us))"
    by (simp add: in_flight_def y1 sp1 q1_def sq_item_def image_mset.compositionality comp_def)
  with o have "add_mset (sq_url (l_item l)) (in_flight ?y2) = in_flight y + image_mset ui_url (mset (take k us))"
    by (simp add: flight_def)
  with assms(5) show ?thesis
    by (intro exI [of _ ?y2] conjI rtranclp.rtrancl_into_rtrancl [OF run st]) (simp_all add: y1 sp1 c2_def)
qed

lemma waiting_insertion_loses_retries_witness:
  "\<exists>y'. process_step\<^sup>*\<^sup>* (busy_process [sample_url 5, sample_url 6]) y' \<and> in_flight y' = {#ui_url (sample_url 5)#}"
proof -
  let ?y = "busy_process [sample_url 5, sample_url 6]"
  have "\<exists>y'. process_step\<^sup>*\<^sup>* ?y y' \<and> y_select y' = Inserting (drop 1 [sample_url 5, sample_url 6]) \<and>
      c_at (y_crawlers y' ! 0) = At_head \<and> mp_fail_output (y_spider y') = mp_fail_output (y_spider ?y) \<and>
      add_mset (sq_url (l_item busy_located)) (in_flight y') =
        in_flight ?y + image_mset ui_url (mset (take 1 [sample_url 5, sample_url 6]))"
    by (rule waiting_insertion_loses_retries [OF _ _ _ _ _ _ busy_process_denies])
      (simp_all add: busy_process_def sq_inv_def)
  then show ?thesis by (auto simp: busy_process_flight busy_located_def busy_item_def)
qed

text \<open>The steps of the selecting thread and its round agree: a round that ends with the sleep, in which no
  crawling thread touches the queue, is what the steps do from the head of the loop to the head of the
  loop, with the same spider and the same disk at the end.\<close>

lemma round_is_uninterrupted_run:
  assumes "select_round env d sp = Some (Slept n, sp', d')" "r_busy env = (\<lambda>_ q. q)"
  shows "(select_runs env)\<^sup>*\<^sup>* (Round_start, d, sp) (Round_start, d', sp')"
proof -
  obtain rc1 sp1 d1 where u: "update_conf (r_conf env) (r_parse env) (r_junk env) (r_stacks env) d
      (sp\<lparr>m_select_rounds := m_select_rounds sp + 1\<rparr>) = Some (rc1, sp1, d1)" and rc1: "\<not> rc1 < 0"
    using assms(1) by (auto simp: select_round_def split: option.splits if_splits)
  obtain rc2 sp2 where s: "select_url (r_now env) (r_shuffle env) (r_drains env) sp1 = Some (rc2, sp2)" and rc2: "\<not> rc2 < 0"
    using assms(1) u rc1 by (auto simp: select_round_def new_samsara_def Let_def split: option.splits if_splits)
  obtain rc3 where i: "insert_url (r_dns env) (\<lambda>_ q. q) sp2 = Some (rc3, sp')" and d': "d' = d1"
    using assms u rc1 s rc2 by (auto simp: select_round_def split: option.splits if_splits)
  have 1: "select_runs env (Round_start, d, sp) (Updated, d1, sp1)" using rc1 by (simp add: select_runs_def u)
  have 2: "select_runs env (Updated, d1, sp1) (Selected, d1, sp2)"
    by (simp add: select_runs_def select_url_decide [OF s rc2])
  show ?thesis
    unfolding d' by (rule converse_rtranclp_into_rtranclp [where r = "select_runs env", OF 1], rule converse_rtranclp_into_rtranclp [where r = "select_runs env", OF 2],
        rule insert_url_runs [OF i])
qed

lemma round_is_uninterrupted_run_witness:
  "\<exists>sp'. (select_runs idle_round)\<^sup>*\<^sup>* (Round_start, sample_disk [] [], idle_spider) (Round_start, sample_disk [] [], sp')"
proof -
  obtain n sp' where r: "select_round idle_round (sample_disk [] []) idle_spider = Some (Slept n, sp', sample_disk [] [])"
    using idle_round_sleeps by blast
  have "r_busy idle_round = (\<lambda>_ q. q)" by (simp add: idle_round_def)
  from round_is_uninterrupted_run [OF r this] show ?thesis by blast
qed

end
