(* ===== verification/Spec2Isabelle.thy ===== *)
theory Spec2Isabelle
  imports Spider_Threads
begin

text \<open>
  A verification development for the spider, a multi-threaded web crawler in C++.

  \<^bold>\<open>The program.\<close> \<open>main\<close> (spider_main.cpp) loads the configuration and calls \<open>CSpider::start\<close>
  (spider.cpp), which makes the components and then one selecting thread (\<open>select_thread\<close>) and
  \<open>work_thread_num\<close> crawling threads (\<open>crawl_thread\<close>). The selecting thread works in rounds: it re-reads
  what has changed on disk (\<open>update_conf\<close>), picks URLs from four pools by quotas per domain (\<open>select_url\<close>)
  and pushes them into the selected queue (\<open>insert_url\<close>). A crawling thread takes an item from that queue,
  resolves its site, asks the level pool for a slot of the site, fetches, gives the slot back, and records
  the page and puts its links into the pools, classified by the rules it has loaded. When too little is left to
  select, \<open>next_round\<close> moves the output of the spider to its input (\<open>transfer\<close>) and a new samsara begins.

  \<^bold>\<open>Theories and code.\<close> Each theory opens with a block of its own; below, the files are those under src/.
  Prelude: C strings, the \<open>std::map\<close> in key order, \<open>sdiv\<close>, and the collection \<open>spider_defs\<close>.
  C_File: \<open>fgets\<close>, \<open>get_one_line\<close> and \<open>filter_headtail_blank\<close> on the memory around the buffer.
  Float32: the \<open>float\<close> and \<open>double\<close> arithmetic of the selection quota.
  Spider_Conf: \<open>CSpiderConf\<close> (spider_common.h) and \<open>CSpider::load_conf\<close>.
  Selected_Queue, Level_Pool, Url_Pool, Dns_Message, Dns_Client, Spider_Statis, Url_Output, Page_Output,
  Url_Recognizer and Utf8_Converter: the classes of selected_queue.cpp, level_pool.cpp, urlpool.cpp,
  udpdns.cpp, dns_client.cpp, spider_statis.cpp, url_output.cpp, page_output.cpp (and
  \<open>CSpider::write_page_list\<close>), url_recognizer.cpp and utf8_converter.cpp, one record for the state of the
  class and one definition for each operation, under its name where HOL leaves it free.
  Spider_State: \<open>CSpider\<close> (spider.h), the record over the components that all threads share.
  Spider_Load: \<open>load_input_urls\<close>, \<open>load_stop_domain\<close>, \<open>load_seed\<close>, \<open>update_conf\<close>.
  Spider_Select: \<open>select_url\<close> and \<open>insert_url\<close>.
  Crawl: \<open>write_to_queue\<close> and a whole turn of the loop of \<open>crawl_thread\<close> (\<open>crawl_turn\<close>), in four stages.
  Crawl_Thread: the start of a crawling thread and its turn with the rules it has loaded.
  Crawl_Steps: the same loop as a machine of program points (\<open>crawl_step\<close>).
  Spider_Main: \<open>main\<close>, \<open>start\<close>, \<open>next_round\<close>, \<open>transfer\<close> and a whole round (\<open>select_round\<close>).
  Spider_Threads: the process, in which the steps of all threads interleave.
  This theory has the properties that span the threads.

  \<^bold>\<open>Two ways to run the spider.\<close> \<open>spider_reach\<close> (Spider_Main) is made of whole rounds and whole turns in any
  order. \<open>process_reach\<close> (Spider_Threads) is made of single steps: between any two calls of a turn on the
  shared components, and between the steps of a round (\<open>select_point\<close>), every other thread can run. The lemmas
  \<open>turn_is_uninterrupted_run\<close> and \<open>round_is_uninterrupted_run\<close> relate the two. Smaller step relations look into a
  component: \<open>pool_step\<close> (Level_Pool), \<open>cache_step\<close> (the two critical sections of \<open>get_ip\<close>) and \<open>upool_step\<close> (a
  URL pool, with \<open>push_url\<close>, \<open>clear_urls\<close> and the emptying by \<open>select_url\<close> cut into the steps that no lock holds
  together).

  \<^bold>\<open>Conventions.\<close> The result \<open>None\<close> is undefined behaviour of the code (an access outside a buffer, a NULL stream)
  or a call that never returns; each definition says which. Errors of the code are its return values, or
  the left of a sum. What the code calls and this repository does not contain is a parameter: \<open>sdConf\<close>,
  \<open>ucUrl\<close>, \<open>CHttp\<close>, \<open>CExtractor\<close>, the code recogniser and the converters, \<open>CSign\<close>, \<open>base64_encode\<close>,
  \<open>boost::regex\<close>; likewise the clock, the network, the results of system calls, and what a command given to
  \<open>system\<close> answers and does. Integers of the DNS messages and of the unsigned comparisons are words; a counter
  or a configured value of type \<open>int\<close> is an \<open>int\<close> of HOL.

  \<^bold>\<open>Loops.\<close> Loops over a list or a text recurse on it. Loops that may not end are \<open>partial_function\<close>: the
  lines of a file (\<open>fgets_lines\<close>, \<open>line_bufs\<close>), for which the lemmas of termination are in Url_Pool, C_File and
  Spider_Load, and the parser of the rule file (\<open>load_sections\<close>, \<open>read_rules\<close>), which really does not return for some files. Bounded
  loops have the bound of the code as fuel: redirects (\<open>max_url_redirect_count\<close>), \<open>take_back\<close>, the answers of a
  DNS reply. \<open>turn_steps\<close> runs a turn of at most eight program points. Where the code waits for others (a
  full or an empty queue), the steps of the process can repeat for ever, and whole operations take what the others do as a
  parameter.

  \<^bold>\<open>Interfaces.\<close> \<open>bounded_fifo\<close> (what the threads rely on in the selected queue; \<open>sq\<close>), \<open>rate_limiter\<close> (the level
  pool; \<open>lp\<close>), \<open>lookup_cache\<close> (the DNS cache; \<open>dc\<close>), \<open>counter_table\<close> (the four counters of the statistics; \<open>cd\<close>, \<open>idn\<close>,
  \<open>cs\<close>, \<open>isn\<close>) and \<open>line_sink\<close> (the two ways to append to a list; \<open>uo\<close>, \<open>eo\<close>), each interpreted on the model's own
  definitions in the theory of its component.

  \<^bold>\<open>What is shown.\<close> For the threads: the limit of fetches per site and the distance between them, the balance
  of slots, the bounds on retries and their end, what becomes of the URLs in flight, the invariant of the
  running spider. For selection: every URL of a known domain is selected or kept aside, small domains are
  selected whole, and insertion keeps the order. For files: the loaders return and do what their formats say;
  rule files, DNS messages and page lines are read back as they were written; the configuration is in range. And the places
  where the code does not do what it means to, each with the conditions under which it happens: retries lost
  to a full queue, URLs lost while a pool is emptied, items of seed domains and unnormalised items that are
  forgotten, shields forgotten by a samsara, failures cached as addresses, the race and the offsets of
  \<open>append_error\<close>, the crafted DNS reply, record names in full, rule files that end early, commands of \<open>transfer\<close> that fail unnoticed.

  \<^bold>\<open>What is not modelled.\<close> Logging, printing, sockets, signals and sleeping have no effect on the state here.
  A push into a pool's \<open>deque\<close> while \<open>select_url\<close> walks over it is a data race of C++, because the mutex
  is locked in a copy; \<open>upool_step\<close> gives the deque steps that work, and Spider_Select and Spider_Threads empty the
  four pools in one step. Overflow of the signed arithmetic on configured values (such as
  \<open>select_nums_per_time * priority_quota\<close>) is not modelled, nor is the truncation of files that are opened again. In the process a lookup in
  the DNS cache is one step; its two sections are \<open>cache_step\<close>. The tests, the build files and the
  configuration data of the repository are not part of the model.
\<close>

section \<open>The running spider\<close>

text \<open>A spider that \<open>main\<close> has configured and started, and a crawling thread's first pass on it: a turn that
  finds the day's directory impossible to make.\<close>

definition running_conf_file :: conf_reader where
  "running_conf_file path = (True, \<lambda>_. ''x'', \<lambda>key. if key = ''SPIDER_PAUSED'' then 0 else 7)"

definition no_mkdir :: crawl_env where
  "no_mkdir = sample_env\<lparr>first_page := (\<lparr>mkdir_ok = False, open_ok = True, write_ok = True\<rparr>,
     \<lparr>tm_year = 113, tm_mon = 0, tm_mday = 2, tm_hour = 3, tm_min = 4\<rparr>)\<rparr>"

lemma running_conf:
  "\<exists>c. reload_conf running_conf_file ''conf'' (spider_new conf_zeroed) =
     (0, (spider_new conf_zeroed)\<lparr>m_conf_path := ''conf'', m_spider_conf := c\<rparr>) \<and> page_dir c = ''x'' \<and>
   page_name_change_interval c = 7 \<and> spider_paused c = 0 \<and> work_thread_num c = 7 \<and> conf_within 7 7 7 c"
proof -
  let ?gi = "\<lambda>key. if key = ''SPIDER_PAUSED'' then 0 else 7"
  have all: "list_all (item_ok (\<lambda>_. ''x'') ?gi) conf_items" by (simp add: conf_tables)
  let ?c = "fold (store_item (\<lambda>_. ''x'') ?gi) conf_items (m_spider_conf (spider_new conf_zeroed))"
  have "load_conf True (\<lambda>_. ''x'') ?gi (m_spider_conf (spider_new conf_zeroed)) = (0, ?c)"
    by (rule prod_eqI) (simp_all add: load_conf_result load_conf_def load_items_stored all load_items_result)
  then show ?thesis
    by (intro exI [of _ ?c] conjI) (simp add: reload_conf_def running_conf_file_def, simp_all add: conf_tables conf_within_def)
qed

lemma started_conf:
  assumes "start env sp1 = Some (0, sp, selecting, crawling)"
  shows "m_spider_conf sp = m_spider_conf sp1 \<and> m_cur_day (mp_page_output sp) = - 1"
  using assms
  by (auto simp: start_def start_init_def start_lists_def start_pools_def Let_def dns_init_def page_init_def
      split: option.splits prod.splits if_splits bool.splits)

text \<open>The process of that spider before the first step of any thread.\<close>

definition running_process :: "CSpider \<Rightarrow> UTF8Converter \<Rightarrow> process" where
  "running_process sp conv = \<lparr>y_spider = sp, y_files = \<lparr>pg_dirs = {}, pg_files = Map.empty\<rparr>, y_disk = sample_disk [] [],
     y_select = Loading,
     y_crawlers = replicate 7 \<lparr>c_env = sample_thread [sample_section], c_rules = fold add_section [sample_section] [],
       c_conv = conv, c_at = At_head\<rparr>\<rparr>"

lemma running_process_steps:
  "\<exists>y y'. process_reach (conf_within 7 7 7) y \<and> process_step y y' \<and> process_reach (conf_within 7 7 7) y' \<and>
     length (y_crawlers y') = 7"
proof -
  obtain c where c: "reload_conf running_conf_file ''conf'' (spider_new conf_zeroed) =
      (0, (spider_new conf_zeroed)\<lparr>m_conf_path := ''conf'', m_spider_conf := c\<rparr>)"
    and dir: "page_dir c = ''x''" "page_name_change_interval c = 7" "spider_paused c = 0" "work_thread_num c = 7"
      "conf_within 7 7 7 c"
    using running_conf by blast
  let ?sp = "(spider_new conf_zeroed)\<lparr>m_conf_path := ''conf'', m_spider_conf := c\<rparr>"
  let ?th = "sample_thread [sample_section]" and ?m = "fold add_section [sample_section] []"
  obtain sp where s: "start sample_start ?sp = Some (0, sp, 1, int (nat (work_thread_num (m_spider_conf ?sp))))"
    using sample_start_ok by blast
  obtain conv' where th: "thread_start ?th (utf8_new 0 [] 0) = Some (Runs conv' ?m)"
    using sample_thread_runs [OF sample_section_good(2)] by blast
  let ?y = "running_process sp conv'"
  have conf: "m_spider_conf sp = c \<and> m_cur_day (mp_page_output sp) = - 1" using started_conf [OF s] by simp
  have y: "y_spider ?y = sp" "y_select ?y = Loading" "0 < length (y_crawlers ?y)" "length (y_crawlers ?y) = 7"
    by (simp_all add: running_process_def)
  have "start sample_start ?sp = Some (0, y_spider ?y, 1, int (length (y_crawlers ?y)))"
    using s dir(4) by (simp add: y)
  moreover have "sm_inv (m_domain (m_statis (spider_new conf_zeroed)))"
    by (simp add: spider_new_def statis_new_def sm_inv_def)
  ultimately have "process_begun ?y"
    using c th unfolding process_begun_def by (intro conjI) (blast, auto simp: running_process_def)
  then have r: "process_reach (conf_within 7 7 7) ?y" using dir(5) conf by (intro begun) (simp_all add: y)
  obtain c' sp' fs where st: "crawler_step no_mkdir (y_crawlers ?y ! 0) (y_spider ?y) (y_files ?y) = Some ((Some Null_page_error, c'), sp', fs)"
    and sp': "m_spider_conf sp' = c"
    using conf
    by (simp add: running_process_def crawler_step_def thread_step_def with_rules_def arrive_def take_item_def no_mkdir_def
        page_append_def enter_day_def Let_def dir day_dir_def dec_int_def dec2_def dec_digits.simps PATH_BUF_def)
  let ?y' = "?y\<lparr>y_spider := sp', y_files := fs, y_crawlers := (y_crawlers ?y)[0 := c']\<rparr>"
  have 1: "process_step ?y ?y'" by (rule process_step.crawl [OF _ _ st]) (simp_all add: y)
  moreover have "process_reach (conf_within 7 7 7) ?y'" by (rule step [OF r 1]) (simp add: sp' dir(5))
  ultimately show ?thesis using r y(4) by (intro exI [of _ ?y] exI [of _ ?y']) simp
qed

lemma hand_within_iff:
  "hand_within f d p \<longleftrightarrow> (\<forall>qi. in_hand p = Some qi \<longrightarrow> counts_within f (if p = Took qi then d else d + 1) qi)"
  by (cases p) (auto simp: hand_within_def)

section \<open>Properties\<close>

text \<open>C1: The site limit holds for the whole process: however the steps of the selecting thread and of all crawling
  threads follow each other, the level pool counts exactly the threads that hold a slot of a site, and
  they are never more than the largest limit any configuration in force has set.\<close>

theorem threads_within_site_limit:
  assumes "process_reach (conf_within limit f d) y"
  shows "running (mp_level_pool (y_spider y)) site = int (holders y site) \<and> int (holders y site) \<le> limit"
  using process_reach_inv [OF assms, of limit f d] by (simp add: process_inv_def)

lemma threads_within_site_limit_witness:
  "\<exists>y y'. process_step y y' \<and> process_reach (conf_within 7 7 7) y' \<and> length (y_crawlers y') = 7 \<and>
     int (holders y' ''a.b'') \<le> 7"
proof -
  obtain y y' where y: "process_step y y'" "process_reach (conf_within 7 7 7) y'" "length (y_crawlers y') = 7"
    using running_process_steps by blast
  from threads_within_site_limit [OF y(2), of "''a.b''"] y show ?thesis by blast
qed

text \<open>C8: Retries are bounded in the whole process: in every interleaving no item that waits in the selected queue
  or that a thread has in hand has been counted as failed, or as without an address, more than once
  beyond the largest maximum in force, and an item just taken to be crawled not even once.\<close>

theorem retries_bounded:
  assumes "process_reach (conf_within limit f d) y"
  shows "items_all (counts_within (f + 1) (d + 1)) (mp_selected_queue (y_spider y)) \<and>
    (\<forall>c \<in> set (y_crawlers y). \<forall>qi. in_hand (c_at c) = Some qi \<longrightarrow>
       counts_within f (if c_at c = Took qi then d else d + 1) qi)"
  using process_reach_inv [OF assms, of limit f d] unfolding process_inv_def shared_inv_def hand_within_iff by blast

lemma retries_bounded_witness:
  "\<exists>y y'. process_step y y' \<and> process_reach (conf_within 7 7 7) y' \<and>
     items_all (counts_within 8 8) (mp_selected_queue (y_spider y'))"
proof -
  obtain y y' where y: "process_step y y'" "process_reach (conf_within 7 7 7) y'"
    using running_process_steps by blast
  from retries_bounded [OF y(2)] y show ?thesis by auto
qed

text \<open>C17: Whatever configuration the spider is started with, and however the rounds of the selecting thread and
  the turns of the crawling threads follow each other, with any network, disk, clock and configuration
  changes on the way: the count of the selected queue is the number of its items and never exceeds its
  bound, the domain table is in key order with each domain once, and between two turns no site has a
  fetch running, so that no site is ever locked out by a lost slot.\<close>

theorem running_spider_invariant:
  assumes "spider_reach sp"
  shows "m_count (mp_selected_queue sp) = int (length (m_queue (mp_selected_queue sp))) \<and>
    m_count (mp_selected_queue sp) \<le> m_size (mp_selected_queue sp) \<and>
    sorted_wrt (<) (map fst (m_domain (m_statis sp))) \<and> distinct (map fst (m_domain (m_statis sp))) \<and>
    (\<forall>site. running (mp_level_pool sp) site = 0)"
  using spider_reach_inv [OF assms]
  by (auto simp: spider_inv_def sq_inv_def sm_inv_def strict_sorted_iff)

lemma running_spider_invariant_witness:
  "\<exists>s s' m. spider_reach (t_spider s) \<and>
     thread_turn (sample_thread [sample_section]) m no_mkdir s = Some (Some Null_page_error, s') \<and>
     spider_reach (t_spider s') \<and> running (mp_level_pool (t_spider s')) ''a.b'' = 0"
proof -
  obtain c where c: "reload_conf running_conf_file ''conf'' (spider_new conf_zeroed) =
      (0, (spider_new conf_zeroed)\<lparr>m_conf_path := ''conf'', m_spider_conf := c\<rparr>)"
    and dir: "page_dir c = ''x''" "page_name_change_interval c = 7" "spider_paused c = 0"
    using running_conf by blast
  let ?sp = "(spider_new conf_zeroed)\<lparr>m_conf_path := ''conf'', m_spider_conf := c\<rparr>"
  let ?th = "sample_thread [sample_section]" and ?m = "fold add_section [sample_section] []"
  obtain sp where s: "start sample_start ?sp = Some (0, sp, 1, int (nat (work_thread_num (m_spider_conf ?sp))))"
    using sample_start_ok by blast
  obtain conv' where th: "thread_start ?th (utf8_new 0 [] 0) = Some (Runs conv' ?m)"
    using sample_thread_runs [OF sample_section_good(2)] by blast
  let ?s = "\<lparr>t_spider = sp, t_files = \<lparr>pg_dirs = {}, pg_files = Map.empty\<rparr>, t_conv = conv'\<rparr>"
  have r: "spider_reach (t_spider ?s)"
    using started [OF c _ s] by (simp add: spider_new_def statis_new_def sm_inv_def)
  have "m_spider_conf sp = c \<and> m_cur_day (mp_page_output sp) = - 1" using started_conf [OF s] by simp
  then obtain s' where t: "thread_turn ?th ?m no_mkdir ?s = Some (Some Null_page_error, s')"
    by (simp add: thread_turn_def with_rules_def crawl_turn_def then_stage_def take_item_def no_mkdir_def
        page_append_def enter_day_def Let_def dir day_dir_def dec_int_def dec2_def dec_digits.simps PATH_BUF_def)
  have r': "spider_reach (t_spider s')" by (rule turn [OF r th t])
  show ?thesis
    using r t r' running_spider_invariant [OF r'] by blast
qed

end
